theory Spec2Isabelle
  imports Main "HOL-Library.Word" "HOL-Library.Sublist"
begin

section \<open>The chat page script \<^verbatim>\<open>app/static/js/main.js\<close>\<close>

text \<open>
  The script is one asynchronous function, \<^verbatim>\<open>sendMessage\<close>. It reads the value of the
  element with id \<^verbatim>\<open>message\<close>, posts it as JSON to \<^verbatim>\<open>/api/chat\<close>, and writes the
  \<^verbatim>\<open>response\<close> property of the reply into the \<^verbatim>\<open>innerText\<close> of the element with id
  \<^verbatim>\<open>response\<close>; any exception raised inside the \<^verbatim>\<open>try\<close> block is replaced by a fixed
  message.

  The function itself is translated line by line in \<open>sendMessage\<close> below. The platform
  operations it calls are modelled from the ECMAScript, Fetch and HTML standards:
  \<^item> JavaScript strings are sequences of 16-bit code units;
  \<^item> \<^verbatim>\<open>JSON.stringify\<close> and the JSON text grammar are written out in full;
  \<^item> the network is a function from the request to a settled outcome (rejection, or a
    response with a status and a body), supplied by the environment;
  \<^item> the document is the tree of its nodes, text nodes and elements; an element is
    referred to by its position in the tree, and the \<^verbatim>\<open>innerText\<close> setter replaces the
    children of its element as the HTML standard prescribes; styles and rendering are
    not modelled, and so neither is the \<^verbatim>\<open>innerText\<close> getter, which depends on them;
  \<^item> an exception is the \<open>Inl\<close> branch of a sum type.
\<close>

subsection \<open>Strings\<close>

type_synonym jsstring = "16 word list"

definition ascii :: "string \<Rightarrow> jsstring" where
  "ascii s = map (\<lambda>c. of_nat (of_char c)) s"

fun intercalate :: "jsstring \<Rightarrow> jsstring list \<Rightarrow> jsstring" where
  "intercalate sep [] = []"
| "intercalate sep [x] = x"
| "intercalate sep (x # y # ys) = x @ sep @ intercalate sep (y # ys)"

subsection \<open>Values and exceptions\<close>

text \<open>
  The values that can reach the script: \<^verbatim>\<open>undefined\<close> and what \<^verbatim>\<open>JSON.parse\<close> builds.
  A number is kept as the JSON literal it was read from; its conversion to a double and
  back to text is floating-point arithmetic and is left to the environment
  (\<open>number_text\<close>). An object is the list of its own properties.
\<close>

datatype jsval =
    JUndefined
  | JNull
  | JBool bool
  | JNumber jsstring
  | JString jsstring
  | JArray "jsval list"
  | JObject "(jsstring \<times> jsval) list"

datatype js_error = TypeError | SyntaxError

subsection \<open>\<^verbatim>\<open>JSON.stringify\<close>\<close>

definition is_leading_surrogate :: "16 word \<Rightarrow> bool" where
  "is_leading_surrogate c = (0xD800 \<le> c \<and> c \<le> 0xDBFF)"

definition is_trailing_surrogate :: "16 word \<Rightarrow> bool" where
  "is_trailing_surrogate c = (0xDC00 \<le> c \<and> c \<le> 0xDFFF)"

definition hex_digit :: "nat \<Rightarrow> 16 word" where
  "hex_digit n = (if n < 10 then of_nat (48 + n) else of_nat (87 + n))"

text \<open>\<^verbatim>\<open>UnicodeEscape\<close>: backslash, \<^verbatim>\<open>u\<close>, four lower-case hexadecimal digits.\<close>

definition UnicodeEscape :: "16 word \<Rightarrow> jsstring" where
  "UnicodeEscape c =
     [0x5C, 0x75,
      hex_digit (unat c div 4096 mod 16), hex_digit (unat c div 256 mod 16),
      hex_digit (unat c div 16 mod 16), hex_digit (unat c mod 16)]"

text \<open>One code unit that is not half of a surrogate pair.\<close>

definition quote_unit :: "16 word \<Rightarrow> jsstring" where
  "quote_unit c =
     (if c = 0x08 then [0x5C, 0x62]
      else if c = 0x09 then [0x5C, 0x74]
      else if c = 0x0A then [0x5C, 0x6E]
      else if c = 0x0C then [0x5C, 0x66]
      else if c = 0x0D then [0x5C, 0x72]
      else if c = 0x22 then [0x5C, 0x22]
      else if c = 0x5C then [0x5C, 0x5C]
      else if c < 0x20 \<or> is_leading_surrogate c \<or> is_trailing_surrogate c
        then UnicodeEscape c
      else [c])"

text \<open>
  The loop of \<^verbatim>\<open>QuoteJSONString\<close> over the code points of the string: a leading
  surrogate followed by a trailing one is a single code point and is copied; every other
  code unit goes through \<open>quote_unit\<close>.
\<close>

fun quote_units :: "jsstring \<Rightarrow> jsstring" where
  "quote_units [] = []"
| "quote_units [c] = quote_unit c"
| "quote_units (c # d # ds) =
     (if is_leading_surrogate c \<and> is_trailing_surrogate d
      then c # d # quote_units ds
      else quote_unit c @ quote_units (d # ds))"

definition QuoteJSONString :: "jsstring \<Rightarrow> jsstring" where
  "QuoteJSONString s = [0x22] @ quote_units s @ [0x22]"

text \<open>
  \<^verbatim>\<open>SerializeJSONProperty\<close> without replacer and without indentation; \<open>None\<close> is the
  result \<^verbatim>\<open>undefined\<close>. A property whose value serialises to \<^verbatim>\<open>undefined\<close> is left out
  of an object and written \<^verbatim>\<open>null\<close> in an array; a number that is not finite is
  written \<^verbatim>\<open>null\<close>.
\<close>

fun SerializeJSONProperty :: "(jsstring \<Rightarrow> jsstring) \<Rightarrow> jsval \<Rightarrow> jsstring option"
  and SerializeJSONArray :: "(jsstring \<Rightarrow> jsstring) \<Rightarrow> jsval list \<Rightarrow> jsstring list"
  and SerializeJSONObject :: "(jsstring \<Rightarrow> jsstring) \<Rightarrow> (jsstring \<times> jsval) list \<Rightarrow> jsstring list"
where
  "SerializeJSONProperty nt JUndefined = None"
| "SerializeJSONProperty nt JNull = Some (ascii ''null'')"
| "SerializeJSONProperty nt (JBool b) = Some (if b then ascii ''true'' else ascii ''false'')"
| "SerializeJSONProperty nt (JNumber n) =
     Some (if nt n = ascii ''Infinity'' \<or> nt n = ascii ''-Infinity'' \<or> nt n = ascii ''NaN''
           then ascii ''null'' else nt n)"
| "SerializeJSONProperty nt (JString s) = Some (QuoteJSONString s)"
| "SerializeJSONProperty nt (JArray vs) =
     Some ([0x5B] @ intercalate [0x2C] (SerializeJSONArray nt vs) @ [0x5D])"
| "SerializeJSONProperty nt (JObject kvs) =
     Some ([0x7B] @ intercalate [0x2C] (SerializeJSONObject nt kvs) @ [0x7D])"
| "SerializeJSONArray nt [] = []"
| "SerializeJSONArray nt (v # vs) =
     (case SerializeJSONProperty nt v of None \<Rightarrow> ascii ''null'' | Some t \<Rightarrow> t)
       # SerializeJSONArray nt vs"
| "SerializeJSONObject nt [] = []"
| "SerializeJSONObject nt ((k, v) # kvs) =
     (case SerializeJSONProperty nt v of
        None \<Rightarrow> SerializeJSONObject nt kvs
      | Some t \<Rightarrow> (QuoteJSONString k @ [0x3A] @ t) # SerializeJSONObject nt kvs)"

definition JSON_stringify :: "(jsstring \<Rightarrow> jsstring) \<Rightarrow> jsval \<Rightarrow> jsstring option" where
  "JSON_stringify nt v = SerializeJSONProperty nt v"

subsection \<open>The JSON text grammar (\<^verbatim>\<open>JSON.parse\<close>)\<close>

definition is_ws :: "16 word \<Rightarrow> bool" where
  "is_ws c = (c = 0x20 \<or> c = 0x09 \<or> c = 0x0A \<or> c = 0x0D)"

definition skip_ws :: "jsstring \<Rightarrow> jsstring" where
  "skip_ws s = dropWhile is_ws s"

definition is_digit :: "16 word \<Rightarrow> bool" where
  "is_digit c = (0x30 \<le> c \<and> c \<le> 0x39)"

definition hex_value :: "16 word \<Rightarrow> nat option" where
  "hex_value c =
     (if 0x30 \<le> c \<and> c \<le> 0x39 then Some (unat c - 48)
      else if 0x61 \<le> c \<and> c \<le> 0x66 then Some (unat c - 87)
      else if 0x41 \<le> c \<and> c \<le> 0x46 then Some (unat c - 55)
      else None)"

text \<open>The character after a backslash, other than \<^verbatim>\<open>u\<close>, and the code unit it stands for.\<close>

definition simple_escape :: "16 word \<Rightarrow> 16 word option" where
  "simple_escape e =
     (if e = 0x22 then Some 0x22
      else if e = 0x5C then Some 0x5C
      else if e = 0x2F then Some 0x2F
      else if e = 0x62 then Some 0x08
      else if e = 0x66 then Some 0x0C
      else if e = 0x6E then Some 0x0A
      else if e = 0x72 then Some 0x0D
      else if e = 0x74 then Some 0x09
      else None)"

definition cons_unit :: "16 word \<Rightarrow> (jsstring \<times> jsstring) option \<Rightarrow> (jsstring \<times> jsstring) option" where
  "cons_unit c r = (case r of None \<Rightarrow> None | Some (t, rest) \<Rightarrow> Some (c # t, rest))"

text \<open>The code unit written with four hexadecimal digits.\<close>

definition hex4 :: "nat \<Rightarrow> nat \<Rightarrow> nat \<Rightarrow> nat \<Rightarrow> 16 word" where
  "hex4 a b x y = of_nat (((a * 16 + b) * 16 + x) * 16 + y)"

text \<open>
  The characters of a string literal after its opening quote, up to the closing quote:
  the decoded string and the rest of the input. A control character below U+0020 may
  not appear unescaped.
\<close>

fun parse_chars :: "jsstring \<Rightarrow> (jsstring \<times> jsstring) option" where
  "parse_chars [] = None"
| "parse_chars (c # cs) =
     (if c = 0x22 then Some ([], cs)
      else if c = 0x5C then
        (case cs of
           [] \<Rightarrow> None
         | e # es \<Rightarrow>
             if e = 0x75 then
               (case es of
                  h1 # h2 # h3 # h4 # r \<Rightarrow>
                    (case (hex_value h1, hex_value h2, hex_value h3, hex_value h4) of
                       (Some a, Some b, Some x, Some y) \<Rightarrow>
                         cons_unit (hex4 a b x y) (parse_chars r)
                     | _ \<Rightarrow> None)
                | _ \<Rightarrow> None)
             else
               (case simple_escape e of
                  None \<Rightarrow> None
                | Some x \<Rightarrow> cons_unit x (parse_chars es)))
      else if c < 0x20 then None
      else cons_unit c (parse_chars cs))"

text \<open>
  A number literal: an optional minus, an integer part without a superfluous leading
  zero, an optional fraction and an optional exponent. The literal itself is returned.
\<close>

definition scan_int :: "jsstring \<Rightarrow> (jsstring \<times> jsstring) option" where
  "scan_int s =
     (case s of
        [] \<Rightarrow> None
      | c # cs \<Rightarrow>
          if c = 0x30 then Some ([c], cs)
          else if is_digit c then Some (takeWhile is_digit s, dropWhile is_digit s)
          else None)"

definition scan_frac :: "jsstring \<Rightarrow> (jsstring \<times> jsstring) option" where
  "scan_frac s =
     (case s of
        [] \<Rightarrow> Some ([], s)
      | c # cs \<Rightarrow>
          if c = 0x2E then
            (if takeWhile is_digit cs = [] then None
             else Some (c # takeWhile is_digit cs, dropWhile is_digit cs))
          else Some ([], s))"

definition scan_exp :: "jsstring \<Rightarrow> (jsstring \<times> jsstring) option" where
  "scan_exp s =
     (case s of
        [] \<Rightarrow> Some ([], s)
      | c # cs \<Rightarrow>
          if c = 0x65 \<or> c = 0x45 then
            (case cs of
               [] \<Rightarrow> None
             | d # ds \<Rightarrow>
                 if d = 0x2B \<or> d = 0x2D then
                   (if takeWhile is_digit ds = [] then None
                    else Some (c # d # takeWhile is_digit ds, dropWhile is_digit ds))
                 else
                   (if takeWhile is_digit cs = [] then None
                    else Some (c # takeWhile is_digit cs, dropWhile is_digit cs)))
          else Some ([], s))"

definition scan_unsigned :: "jsstring \<Rightarrow> (jsstring \<times> jsstring) option" where
  "scan_unsigned s =
     (case scan_int s of
        None \<Rightarrow> None
      | Some (i, s1) \<Rightarrow>
          (case scan_frac s1 of
             None \<Rightarrow> None
           | Some (f, s2) \<Rightarrow>
               (case scan_exp s2 of
                  None \<Rightarrow> None
                | Some (e, s3) \<Rightarrow> Some (i @ f @ e, s3))))"

definition scan_number :: "jsstring \<Rightarrow> (jsstring \<times> jsstring) option" where
  "scan_number s =
     (case s of
        [] \<Rightarrow> None
      | c # cs \<Rightarrow>
          if c = 0x2D then cons_unit c (scan_unsigned cs) else scan_unsigned s)"

text \<open>
  \<^verbatim>\<open>CreateDataProperty\<close> on the object under construction: a repeated key keeps its
  place and takes the later value.
\<close>

fun obj_put :: "(jsstring \<times> jsval) list \<Rightarrow> jsstring \<Rightarrow> jsval \<Rightarrow> (jsstring \<times> jsval) list" where
  "obj_put [] k v = [(k, v)]"
| "obj_put ((k', v') # kvs) k v =
     (if k' = k then (k, v) # kvs else (k', v') # obj_put kvs k v)"

text \<open>
  Recursive descent over the grammar. The first argument bounds the depth of the
  recursion; \<open>JSON_parse\<close> starts it high enough for every input (lemma
  \<open>parse_value_fuel\<close>). \<open>parse_elements\<close> reads the elements of an array after its
  opening bracket and \<open>parse_members\<close> the members of an object after its opening brace.
\<close>

fun parse_value :: "nat \<Rightarrow> jsstring \<Rightarrow> (jsval \<times> jsstring) option"
  and parse_elements :: "nat \<Rightarrow> jsval list \<Rightarrow> jsstring \<Rightarrow> (jsval \<times> jsstring) option"
  and parse_members :: "nat \<Rightarrow> (jsstring \<times> jsval) list \<Rightarrow> jsstring \<Rightarrow> (jsval \<times> jsstring) option"
where
  "parse_value 0 s = None"
| "parse_value (Suc n) s =
     (case skip_ws s of
        [] \<Rightarrow> None
      | c # cs \<Rightarrow>
          if c = 0x7B then
            (case skip_ws cs of
               [] \<Rightarrow> None
             | d # ds \<Rightarrow> if d = 0x7D then Some (JObject [], ds) else parse_members n [] (d # ds))
          else if c = 0x5B then
            (case skip_ws cs of
               [] \<Rightarrow> None
             | d # ds \<Rightarrow> if d = 0x5D then Some (JArray [], ds) else parse_elements n [] (d # ds))
          else if c = 0x22 then
            (case parse_chars cs of None \<Rightarrow> None | Some (t, r) \<Rightarrow> Some (JString t, r))
          else if take 4 (c # cs) = ascii ''true'' then Some (JBool True, drop 4 (c # cs))
          else if take 5 (c # cs) = ascii ''false'' then Some (JBool False, drop 5 (c # cs))
          else if take 4 (c # cs) = ascii ''null'' then Some (JNull, drop 4 (c # cs))
          else
            (case scan_number (c # cs) of None \<Rightarrow> None | Some (t, r) \<Rightarrow> Some (JNumber t, r)))"
| "parse_elements 0 acc s = None"
| "parse_elements (Suc n) acc s =
     (case parse_value n s of
        None \<Rightarrow> None
      | Some (v, r) \<Rightarrow>
          (case skip_ws r of
             [] \<Rightarrow> None
           | c # cs \<Rightarrow>
               if c = 0x2C then parse_elements n (acc @ [v]) cs
               else if c = 0x5D then Some (JArray (acc @ [v]), cs)
               else None))"
| "parse_members 0 acc s = None"
| "parse_members (Suc n) acc s =
     (case skip_ws s of
        [] \<Rightarrow> None
      | q # cs \<Rightarrow>
          if q \<noteq> 0x22 then None
          else
            (case parse_chars cs of
               None \<Rightarrow> None
             | Some (k, r) \<Rightarrow>
                 (case skip_ws r of
                    [] \<Rightarrow> None
                  | c # r1 \<Rightarrow>
                      if c \<noteq> 0x3A then None
                      else
                        (case parse_value n r1 of
                           None \<Rightarrow> None
                         | Some (v, r2) \<Rightarrow>
                             (case skip_ws r2 of
                                [] \<Rightarrow> None
                              | d # r3 \<Rightarrow>
                                  if d = 0x2C then parse_members n (obj_put acc k v) r3
                                  else if d = 0x7D then Some (JObject (obj_put acc k v), r3)
                                  else None)))))"

text \<open>\<open>None\<close> is the \<^verbatim>\<open>SyntaxError\<close> of \<^verbatim>\<open>JSON.parse\<close>.\<close>

definition JSON_parse :: "jsstring \<Rightarrow> jsval option" where
  "JSON_parse s =
     (case parse_value (2 * length s + 2) s of
        None \<Rightarrow> None
      | Some (v, r) \<Rightarrow> if skip_ws r = [] then Some v else None)"

subsection \<open>Property access and conversion to text\<close>

text \<open>
  \<^verbatim>\<open>data.response\<close>. Reading a property of \<^verbatim>\<open>null\<close> or \<^verbatim>\<open>undefined\<close> throws a
  \<^verbatim>\<open>TypeError\<close>. An object yields its own property of that name, \<^verbatim>\<open>undefined\<close> when it
  has none; strings, numbers, booleans and arrays have no property named
  \<^verbatim>\<open>response\<close>, and neither have the built-in prototypes.
\<close>

definition get_response :: "jsval \<Rightarrow> js_error + jsval" where
  "get_response data =
     (case data of
        JUndefined \<Rightarrow> Inl TypeError
      | JNull \<Rightarrow> Inl TypeError
      | JObject kvs \<Rightarrow>
          Inr (case map_of kvs (ascii ''response'') of None \<Rightarrow> JUndefined | Some v \<Rightarrow> v)
      | _ \<Rightarrow> Inr JUndefined)"

text \<open>
  The abstract operation \<^verbatim>\<open>ToString\<close> on these values. An array is joined with commas,
  \<^verbatim>\<open>null\<close> elements giving the empty string. An object built by \<^verbatim>\<open>JSON.parse\<close> inherits
  \<^verbatim>\<open>Object.prototype.toString\<close>, unless it has an own property \<^verbatim>\<open>toString\<close>: that
  property is not callable, \<^verbatim>\<open>valueOf\<close> either is not callable or returns the object,
  and the conversion throws a \<^verbatim>\<open>TypeError\<close>.
\<close>

fun ToString :: "(jsstring \<Rightarrow> jsstring) \<Rightarrow> jsval \<Rightarrow> js_error + jsstring"
  and join_elements :: "(jsstring \<Rightarrow> jsstring) \<Rightarrow> jsval list \<Rightarrow> js_error + jsstring list"
where
  "ToString nt JUndefined = Inr (ascii ''undefined'')"
| "ToString nt JNull = Inr (ascii ''null'')"
| "ToString nt (JBool b) = Inr (if b then ascii ''true'' else ascii ''false'')"
| "ToString nt (JNumber n) = Inr (nt n)"
| "ToString nt (JString s) = Inr s"
| "ToString nt (JArray vs) =
     (case join_elements nt vs of
        Inl e \<Rightarrow> Inl e
      | Inr ts \<Rightarrow> Inr (intercalate [0x2C] ts))"
| "ToString nt (JObject kvs) =
     (if map_of kvs (ascii ''toString'') \<noteq> None then Inl TypeError
      else Inr (ascii ''[object Object]''))"
| "join_elements nt [] = Inr []"
| "join_elements nt (v # vs) =
     (case (if v = JUndefined \<or> v = JNull then Inr [] else ToString nt v) of
        Inl e \<Rightarrow> Inl e
      | Inr t \<Rightarrow>
          (case join_elements nt vs of
             Inl e \<Rightarrow> Inl e
           | Inr ts \<Rightarrow> Inr (t # ts)))"

text \<open>
  The argument of the \<^verbatim>\<open>innerText\<close> setter is converted to a \<^verbatim>\<open>DOMString\<close>; the
  attribute is declared \<^verbatim>\<open>[LegacyNullToEmptyString]\<close>, so \<^verbatim>\<open>null\<close> becomes the empty
  string and every other value goes through \<open>ToString\<close>.
\<close>

definition DOMString :: "(jsstring \<Rightarrow> jsstring) \<Rightarrow> jsval \<Rightarrow> js_error + jsstring" where
  "DOMString nt v = (if v = JNull then Inr [] else ToString nt v)"

text \<open>
  A string given to \<^verbatim>\<open>fetch\<close> as body is converted to a \<^verbatim>\<open>USVString\<close>: every surrogate
  that is not part of a pair is replaced by U+FFFD.
\<close>

fun USVString :: "jsstring \<Rightarrow> jsstring" where
  "USVString [] = []"
| "USVString [c] =
     (if is_leading_surrogate c \<or> is_trailing_surrogate c then [0xFFFD] else [c])"
| "USVString (c # d # ds) =
     (if is_leading_surrogate c \<and> is_trailing_surrogate d then c # d # USVString ds
      else (if is_leading_surrogate c \<or> is_trailing_surrogate c then 0xFFFD else c)
             # USVString (d # ds))"

subsection \<open>The document\<close>

text \<open>
  A node is a text node with its data, or an element with its tag, its id if it has one,
  its \<^verbatim>\<open>value\<close> and its children. The document is the list of its top-level nodes. Every
  element carries a \<^verbatim>\<open>value\<close>; the script reads that of the input field only.
\<close>

datatype node =
    Text jsstring
  | Element jsstring "jsstring option" jsstring "node list"

type_synonym document = "node list"

text \<open>
  \<^verbatim>\<open>textContent\<close>: the data of the text nodes below a node, concatenated in tree order.
\<close>

fun textContent :: "node \<Rightarrow> jsstring"
  and textContent_nodes :: "node list \<Rightarrow> jsstring"
where
  "textContent (Text d) = d"
| "textContent (Element t i v cs) = textContent_nodes cs"
| "textContent_nodes [] = []"
| "textContent_nodes (n # ns) = textContent n @ textContent_nodes ns"

text \<open>
  A reference to a node is its path: the index of a top-level node, then indices into the
  children, one level at a time. \<open>node_at\<close> follows a path.
\<close>

fun node_at :: "node list \<Rightarrow> nat list \<Rightarrow> node option" where
  "node_at [] p = None"
| "node_at (n # ns) [] = None"
| "node_at (n # ns) (0 # q) =
     (if q = [] then Some n
      else (case n of Text d \<Rightarrow> None | Element t i v cs \<Rightarrow> node_at cs q))"
| "node_at (n # ns) (Suc k # q) = node_at ns (k # q)"

fun shift :: "nat list \<Rightarrow> nat list" where
  "shift [] = []"
| "shift (k # q) = Suc k # q"

text \<open>
  \<^verbatim>\<open>document.getElementById(i)\<close>: the first element in tree order whose id is \<open>i\<close>, or
  \<^verbatim>\<open>null\<close> (\<open>None\<close>) when there is none.
\<close>

fun find_node :: "jsstring \<Rightarrow> node \<Rightarrow> nat list option"
  and find_nodes :: "jsstring \<Rightarrow> node list \<Rightarrow> nat list option"
where
  "find_node i (Text d) = None"
| "find_node i (Element t eid v cs) = (if eid = Some i then Some [] else find_nodes i cs)"
| "find_nodes i [] = None"
| "find_nodes i (n # ns) =
     (case find_node i n of
        Some p \<Rightarrow> Some (0 # p)
      | None \<Rightarrow> (case find_nodes i ns of None \<Rightarrow> None | Some p \<Rightarrow> Some (shift p)))"

definition getElementById :: "document \<Rightarrow> jsstring \<Rightarrow> nat list option" where
  "getElementById doc i = find_nodes i doc"

text \<open>
  \<^verbatim>\<open>ref.value\<close>: a \<^verbatim>\<open>TypeError\<close> when the reference is \<^verbatim>\<open>null\<close>. A reference returned by
  \<open>getElementById\<close> always leads to an element; the other branches are there for
  totality only.
\<close>

definition get_value :: "document \<Rightarrow> nat list option \<Rightarrow> js_error + jsstring" where
  "get_value doc ref =
     (case ref of
        None \<Rightarrow> Inl TypeError
      | Some p \<Rightarrow>
          (case node_at doc p of
             Some (Element t i v cs) \<Rightarrow> Inr v
           | _ \<Rightarrow> Inl TypeError))"

text \<open>
  The \<^emph>\<open>rendered text fragment\<close> of a string, which the \<^verbatim>\<open>innerText\<close> setter puts in place
  of the children of its element: a text node for every maximal run of code units other
  than CR and LF, and a \<^verbatim>\<open>br\<close> element for every line break, CR followed by LF counting
  as one. The first argument is the run collected so far.
\<close>

definition br :: node where
  "br = Element (ascii ''br'') None [] []"

definition flush :: "jsstring \<Rightarrow> node list" where
  "flush run = (if run = [] then [] else [Text run])"

fun fragment_from :: "jsstring \<Rightarrow> jsstring \<Rightarrow> node list" where
  "fragment_from run [] = flush run"
| "fragment_from run [c] =
     (if c = 0x0D \<or> c = 0x0A then flush run @ [br] else flush (run @ [c]))"
| "fragment_from run (c # d # ds) =
     (if c = 0x0D \<and> d = 0x0A then flush run @ br # fragment_from [] ds
      else if c = 0x0D \<or> c = 0x0A then flush run @ br # fragment_from [] (d # ds)
      else fragment_from (run @ [c]) (d # ds))"

definition rendered_text_fragment :: "jsstring \<Rightarrow> node list" where
  "rendered_text_fragment s = fragment_from [] s"

text \<open>The children of the element at a path replaced by \<open>new\<close>; every other node stays.\<close>

fun replace_children :: "node list \<Rightarrow> nat list \<Rightarrow> node list \<Rightarrow> node list" where
  "replace_children [] p new = []"
| "replace_children (n # ns) [] new = n # ns"
| "replace_children (n # ns) (0 # q) new =
     (case n of
        Text d \<Rightarrow> n
      | Element t i v cs \<Rightarrow>
          Element t i v (if q = [] then new else replace_children cs q new)) # ns"
| "replace_children (n # ns) (Suc k # q) new = n # replace_children ns (k # q) new"

text \<open>
  \<^verbatim>\<open>ref.innerText = v\<close>: a \<^verbatim>\<open>TypeError\<close> when the reference is \<^verbatim>\<open>null\<close> or when the
  conversion of \<open>v\<close> throws; otherwise all children of the element, elements among them,
  are replaced by the rendered text fragment of the converted string.
\<close>

definition set_innerText ::
  "(jsstring \<Rightarrow> jsstring) \<Rightarrow> document \<Rightarrow> nat list option \<Rightarrow> jsval \<Rightarrow> js_error + document" where
  "set_innerText nt doc ref v =
     (case ref of
        None \<Rightarrow> Inl TypeError
      | Some p \<Rightarrow>
          (case DOMString nt v of
             Inl e \<Rightarrow> Inl e
           | Inr t \<Rightarrow> Inr (replace_children doc p (rendered_text_fragment t))))"

subsection \<open>The network\<close>

record request =
  url :: jsstring
  http_method :: jsstring
  headers :: "(jsstring \<times> jsstring) list"
  body :: "jsstring option"

text \<open>
  A response has a status and a body. The body is the text the bytes decode to, or
  \<open>None\<close> when reading it fails.
\<close>

record response =
  status :: nat
  body_text :: "jsstring option"

datatype fetch_outcome = Rejects | Fulfils response

text \<open>
  The environment of one call: how the server answers a request, and the text of a
  number. An awaited promise is taken as settled; a request that never settles is
  outside the model.
\<close>

record env =
  fetch :: "request \<Rightarrow> fetch_outcome"
  number_text :: "jsstring \<Rightarrow> jsstring"

text \<open>
  \<^verbatim>\<open>res.json()\<close>: rejects with a \<^verbatim>\<open>TypeError\<close> when the body cannot be read and with a
  \<^verbatim>\<open>SyntaxError\<close> when it is not a JSON text.
\<close>

definition json :: "response \<Rightarrow> js_error + jsval" where
  "json res =
     (case body_text res of
        None \<Rightarrow> Inl TypeError
      | Some t \<Rightarrow> (case JSON_parse t of None \<Rightarrow> Inl SyntaxError | Some v \<Rightarrow> Inr v))"

subsection \<open>\<^verbatim>\<open>sendMessage\<close>\<close>

definition error_text :: jsstring where
  "error_text = ascii ''An error occurred while sending the message.''"

text \<open>
  The request built by the call of \<^verbatim>\<open>fetch\<close> (lines 8 to 14), with the body string
  converted as \<^verbatim>\<open>fetch\<close> converts it.
\<close>

definition chat_request :: "(jsstring \<Rightarrow> jsstring) \<Rightarrow> jsstring \<Rightarrow> request" where
  "chat_request nt message =
     \<lparr>url = ascii ''/api/chat'',
      http_method = ascii ''POST'',
      headers = [(ascii ''Content-Type'', ascii ''application/json'')],
      body = map_option USVString
               (JSON_stringify nt (JObject [(ascii ''message'', JString message)]))\<rparr>"

text \<open>
  The body of the \<^verbatim>\<open>try\<close> block (lines 8 to 16). Its first component is \<open>Inl\<close> when one
  of its statements throws, otherwise the document after the assignment to
  \<^verbatim>\<open>innerText\<close>; its second component lists the requests handed to \<^verbatim>\<open>fetch\<close>.
\<close>

definition try_block ::
  "env \<Rightarrow> document \<Rightarrow> jsstring \<Rightarrow> nat list option \<Rightarrow> (js_error + document) \<times> request list" where
  "try_block ev doc message responseArea =
     (let rq = chat_request (number_text ev) message in
      (case fetch ev rq of
         Rejects \<Rightarrow> Inl TypeError
       | Fulfils res \<Rightarrow>
           (case json res of
              Inl e \<Rightarrow> Inl e
            | Inr data \<Rightarrow>
                (case get_response data of
                   Inl e \<Rightarrow> Inl e
                 | Inr v \<Rightarrow> set_innerText (number_text ev) doc responseArea v)),
       [rq]))"

text \<open>
  What one call leaves behind: how the promise it returns settles (\<open>Inl\<close> is an uncaught
  exception), the document, and the requests it issued, in order.
\<close>

record result =
  completion :: "js_error + unit"
  final_doc :: document
  requests :: "request list"

definition sendMessage :: "env \<Rightarrow> document \<Rightarrow> result" where
  "sendMessage ev doc =
     (let messageInput = getElementById doc (ascii ''message'') in
      case get_value doc messageInput of
        Inl e \<Rightarrow> \<lparr>completion = Inl e, final_doc = doc, requests = []\<rparr>
      | Inr message \<Rightarrow>
          (let responseArea = getElementById doc (ascii ''response'') in
           case try_block ev doc message responseArea of
             (Inr doc', sent) \<Rightarrow> \<lparr>completion = Inr (), final_doc = doc', requests = sent\<rparr>
           | (Inl error, sent) \<Rightarrow>
               (case set_innerText (number_text ev) doc responseArea (JString error_text) of
                  Inl e \<Rightarrow> \<lparr>completion = Inl e, final_doc = doc, requests = sent\<rparr>
                | Inr doc' \<Rightarrow> \<lparr>completion = Inr (), final_doc = doc', requests = sent\<rparr>)))"

subsection \<open>Reading the page\<close>

text \<open>
  The text of the input field, the children of the output element, and the text content
  (\<^verbatim>\<open>textContent\<close>) of the output element, each \<open>None\<close> when the element is not in the
  document.
\<close>

definition input_text :: "document \<Rightarrow> jsstring option" where
  "input_text doc =
     (case get_value doc (getElementById doc (ascii ''message'')) of
        Inl e \<Rightarrow> None
      | Inr m \<Rightarrow> Some m)"

definition output_children :: "document \<Rightarrow> node list option" where
  "output_children doc =
     (case getElementById doc (ascii ''response'') of
        None \<Rightarrow> None
      | Some p \<Rightarrow>
          (case node_at doc p of
             Some (Element t i v cs) \<Rightarrow> Some cs
           | _ \<Rightarrow> None))"

definition displayed :: "document \<Rightarrow> jsstring option" where
  "displayed doc = map_option textContent_nodes (output_children doc)"

text \<open>A line break character, and a string with its line break characters left out.\<close>

definition is_line_break :: "16 word \<Rightarrow> bool" where
  "is_line_break c = (c = 0x0D \<or> c = 0x0A)"

definition without_line_breaks :: "jsstring \<Rightarrow> jsstring" where
  "without_line_breaks s = filter (\<lambda>c. \<not> is_line_break c) s"



subsection \<open>What the reply amounts to\<close>

text \<open>
  The steps of the \<^verbatim>\<open>try\<close> block up to the assignment, without the document: the text
  the reply converts to, or the exception thrown on the way. \<open>shown_text\<close> is what the
  call assigns when the output element exists.
\<close>

definition reply_text :: "env \<Rightarrow> jsstring \<Rightarrow> js_error + jsstring" where
  "reply_text ev message =
     (case fetch ev (chat_request (number_text ev) message) of
        Rejects \<Rightarrow> Inl TypeError
      | Fulfils res \<Rightarrow>
          (case json res of
             Inl e \<Rightarrow> Inl e
           | Inr data \<Rightarrow>
               (case get_response data of
                  Inl e \<Rightarrow> Inl e
                | Inr v \<Rightarrow> DOMString (number_text ev) v)))"

definition shown_text :: "env \<Rightarrow> jsstring \<Rightarrow> jsstring" where
  "shown_text ev message = (case reply_text ev message of Inl e \<Rightarrow> error_text | Inr s \<Rightarrow> s)"

subsection \<open>Pages and servers used in the examples\<close>

text \<open>
  A page with the input field holding \<open>typed\<close> beside the output element showing
  \<open>shown\<close>; a page whose input field lies inside the output element; a server that
  answers every request with the same outcome; a reply with a status and a body; and an
  environment whose replies all carry the status \<open>st\<close>.
\<close>

definition chat_page :: "jsstring \<Rightarrow> jsstring \<Rightarrow> document" where
  "chat_page typed shown =
     [Element (ascii ''input'') (Some (ascii ''message'')) typed [],
      Element (ascii ''div'') (Some (ascii ''response'')) [] (rendered_text_fragment shown)]"


definition server :: "fetch_outcome \<Rightarrow> env" where
  "server out = \<lparr>fetch = (\<lambda>rq. out), number_text = (\<lambda>n. n)\<rparr>"

definition reply :: "nat \<Rightarrow> jsstring \<Rightarrow> fetch_outcome" where
  "reply st t = Fulfils \<lparr>status = st, body_text = Some t\<rparr>"

definition with_status :: "nat \<Rightarrow> env \<Rightarrow> env" where
  "with_status st ev =
     ev\<lparr>fetch := (\<lambda>rq. case fetch ev rq of
                          Rejects \<Rightarrow> Rejects
                        | Fulfils res \<Rightarrow> Fulfils (res\<lparr>status := st\<rparr>))\<rparr>"

text \<open>
  The body \<^verbatim>\<open>{"response":"a\r\nb"}\<close>, whose string holds a carriage return and a line
  feed, and the body \<^verbatim>\<open>{"response":"a\nb"}\<close>, whose string holds a line feed only.
\<close>

definition crlf_body :: jsstring where
  \<open>crlf_body = ascii ''{"response":"a'' @ [0x5C, 0x72, 0x5C, 0x6E] @ ascii ''b"}''\<close>

definition lf_body :: jsstring where
  \<open>lf_body = ascii ''{"response":"a'' @ [0x5C, 0x6E] @ ascii ''b"}''\<close>

text \<open>A code unit that is not a surrogate.\<close>

definition plain :: "16 word \<Rightarrow> bool" where
  "plain c = (\<not> is_leading_surrogate c \<and> \<not> is_trailing_surrogate c)"

section \<open>String literals: writing and reading back\<close>

lemma hex_all: "\<forall>n\<in>{0..<16}. hex_value (hex_digit n) = Some n \<and> hex_digit n < 0x80"
  by code_simp

lemma hex_value_hex_digit: "n < 16 \<Longrightarrow> hex_value (hex_digit n) = Some n"
  using hex_all by simp

lemma hex_digit_range: "n < 16 \<Longrightarrow> hex_digit n < 0x80"
  using hex_all by simp

lemma nibbles:
  assumes "n < 65536"
  shows "((n div 4096 mod 16 * 16 + n div 256 mod 16) * 16 + n div 16 mod 16) * 16 + n mod 16 = (n::nat)"
proof -
  have a: "n div 4096 = n div 256 div 16" and b: "n div 256 = n div 16 div 16"
    by (simp_all add: div_mult2_eq [symmetric])
  have "n div 4096 < 16" using assms by simp
  then have c: "n div 4096 mod 16 = n div 4096" by simp
  have "n div 4096 * 16 + n div 256 mod 16 = n div 256"
    unfolding a by (rule div_mult_mod_eq)
  moreover have "n div 256 * 16 + n div 16 mod 16 = n div 16"
    unfolding b by (rule div_mult_mod_eq)
  moreover have "n div 16 * 16 + n mod 16 = n"
    by (rule div_mult_mod_eq)
  ultimately show ?thesis using c by simp
qed

lemma hex4_nibbles:
  "hex4 (unat c div 4096 mod 16) (unat c div 256 mod 16) (unat c div 16 mod 16) (unat c mod 16) = c"
proof -
  have "unat c < 65536" using unsigned_less [of c, where 'a = nat] by simp
  then have "hex4 (unat c div 4096 mod 16) (unat c div 256 mod 16) (unat c div 16 mod 16) (unat c mod 16)
      = of_nat (unat c)"
    unfolding hex4_def by (simp only: nibbles)
  then show ?thesis by simp
qed

lemma parse_chars_UnicodeEscape:
  "parse_chars (UnicodeEscape c @ r) = cons_unit c (parse_chars r)"
  by (simp add: UnicodeEscape_def hex_value_hex_digit hex4_nibbles)

lemma parse_chars_quote_unit:
  "parse_chars (quote_unit c @ r) = cons_unit c (parse_chars r)"
  by (auto simp add: quote_unit_def parse_chars_UnicodeEscape simple_escape_def)

lemma surrogate_plain:
  "is_leading_surrogate c \<or> is_trailing_surrogate c \<Longrightarrow> c \<noteq> 0x22 \<and> c \<noteq> 0x5C \<and> \<not> c < 0x20"
  by (auto simp: is_leading_surrogate_def is_trailing_surrogate_def word_le_nat_alt word_less_nat_alt)

lemma parse_chars_quote_units:
  "parse_chars (quote_units s @ 0x22 # r) = Some (s, r)"
proof (induction s rule: quote_units.induct)
  case 1
  show ?case by simp
next
  case (2 c)
  show ?case by (simp add: parse_chars_quote_unit cons_unit_def)
next
  case (3 c d ds)
  show ?case
  proof (cases "is_leading_surrogate c \<and> is_trailing_surrogate d")
    case True
    then have "c \<noteq> 0x22 \<and> c \<noteq> 0x5C \<and> \<not> c < 0x20" "d \<noteq> 0x22 \<and> d \<noteq> 0x5C \<and> \<not> d < 0x20"
      using surrogate_plain by blast+
    with True 3 show ?thesis by (simp add: cons_unit_def)
  next
    case False
    then have "quote_units (c # d # ds) = quote_unit c @ quote_units (d # ds)"
      by auto
    then have "parse_chars (quote_units (c # d # ds) @ 0x22 # r)
        = cons_unit c (parse_chars (quote_units (d # ds) @ 0x22 # r))"
      by (simp only: append_assoc parse_chars_quote_unit)
    with False 3 show ?thesis by (simp add: cons_unit_def)
  qed
qed

text \<open>The conversion of the body by \<^verbatim>\<open>fetch\<close> leaves a quoted string as it is.\<close>

lemma USVString_plain_prefix:
  "list_all plain a \<Longrightarrow> USVString (a @ t) = a @ USVString t"
proof (induction a)
  case Nil
  show ?case by simp
next
  case (Cons x a)
  from Cons.prems have px: "plain x" and a: "list_all plain a"
    by simp_all
  from px have x: "\<not> is_leading_surrogate x" "\<not> is_trailing_surrogate x"
    by (simp_all add: plain_def)
  show ?case
  proof (cases "a @ t")
    case Nil
    with x show ?thesis by simp
  next
    case (Cons y ys)
    then have "USVString (x # a @ t) = x # USVString (a @ t)"
      using x by simp
    with Cons.IH a show ?thesis by simp
  qed
qed

lemma plain_ascii: "c < 0x80 \<Longrightarrow> plain c"
  by (auto simp: plain_def is_leading_surrogate_def is_trailing_surrogate_def word_le_nat_alt word_less_nat_alt)

lemma plain_UnicodeEscape: "list_all plain (UnicodeEscape c)"
  by (simp add: UnicodeEscape_def plain_ascii hex_digit_range)

lemma plain_quote_unit: "list_all plain (quote_unit c)"
  by (auto simp: quote_unit_def plain_UnicodeEscape plain_ascii) (simp add: plain_def)

lemma USVString_quote_units:
  "USVString (quote_units s @ t) = quote_units s @ USVString t"
proof (induction s rule: quote_units.induct)
  case 1
  show ?case by simp
next
  case (2 c)
  show ?case by (simp add: USVString_plain_prefix plain_quote_unit)
next
  case (3 c d ds)
  show ?case
  proof (cases "is_leading_surrogate c \<and> is_trailing_surrogate d")
    case True
    with 3 show ?thesis by simp
  next
    case False
    then have u: "quote_units (c # d # ds) = quote_unit c @ quote_units (d # ds)"
      by auto
    from False 3 have "USVString (quote_units (d # ds) @ t) = quote_units (d # ds) @ USVString t"
      by simp
    then show ?thesis
      by (simp only: u append_assoc USVString_plain_prefix [OF plain_quote_unit])
  qed
qed

lemma message_body:
  "JSON_stringify nt (JObject [(ascii ''message'', JString m)])
     = Some (ascii ''{'' @ QuoteJSONString (ascii ''message'') @ ascii '':'' @ QuoteJSONString m @ ascii ''}'')"
  by (simp add: JSON_stringify_def ascii_def)

lemma message_body_text:
  \<open>JSON_stringify nt (JObject [(ascii ''message'', JString m)])
     = Some (ascii ''{"message":"'' @ quote_units m @ ascii ''"}'')\<close>
  by (simp add: JSON_stringify_def ascii_def QuoteJSONString_def quote_unit_def is_leading_surrogate_def is_trailing_surrogate_def)

lemma USVString_message_body:
  \<open>USVString (ascii ''{"message":"'' @ quote_units m @ ascii ''"}'')
     = ascii ''{"message":"'' @ quote_units m @ ascii ''"}''\<close>
proof -
  have a: \<open>list_all plain (ascii ''{"message":"'')\<close> \<open>list_all plain (ascii ''"}'')\<close>
    by (simp_all add: ascii_def plain_ascii)
  have \<open>USVString (ascii ''"}'') = ascii ''"}''\<close>
    using USVString_plain_prefix [OF a(2), of "[]"] by simp
  then show ?thesis
    by (simp only: USVString_plain_prefix [OF a(1)] USVString_quote_units)
qed

lemma parse_message_body:
  \<open>JSON_parse (ascii ''{"message":"'' @ quote_units m @ ascii ''"}'')
     = Some (JObject [(ascii ''message'', JString m)])\<close>
proof -
  let ?b = \<open>ascii ''{"message":"'' @ quote_units m @ ascii ''"}''\<close>
  obtain k where k: "2 * length ?b + 2 = Suc (Suc (Suc k))"
    by (simp add: ascii_def)
  have q: \<open>parse_chars (quote_units m @ ascii ''"}'') = Some (m, ascii ''}'')\<close>
    using parse_chars_quote_units [of m \<open>ascii ''}''\<close>] by (simp add: ascii_def)
  have \<open>parse_value (Suc (Suc (Suc k))) ?b = Some (JObject [(ascii ''message'', JString m)], [])\<close>
    using q by (simp add: ascii_def skip_ws_def is_ws_def cons_unit_def)
  then show ?thesis
    unfolding JSON_parse_def k by (simp add: skip_ws_def)
qed

section \<open>The depth bound of the parser\<close>

text \<open>
  A value that the parser reads with any bound on the depth of its recursion is read with
  twice the number of code units it takes up, and so with the bound \<open>JSON_parse\<close> starts
  from: a \<open>None\<close> of \<open>JSON_parse\<close> is a syntax error, never a bound that was too small.
\<close>

lemma skip_ws_length: "length (skip_ws s) \<le> length s"
  by (simp add: skip_ws_def length_dropWhile_le)

lemma skip_ws_Cons: "skip_ws s = c # cs \<Longrightarrow> length cs < length s"
  using skip_ws_length [of s] by simp

lemma cons_unit_Some:
  "cons_unit c x = Some (t, r) \<Longrightarrow> \<exists>t'. x = Some (t', r)"
  by (auto simp add: cons_unit_def split: option.splits)

lemma parse_chars_step:
  assumes "parse_chars (c # cs) = Some (t, r)"
  shows "r = cs \<or> (\<exists>t' s'. parse_chars s' = Some (t', r) \<and> length s' \<le> length cs)"
proof (cases "c = 0x22")
  case True
  with assms show ?thesis by simp
next
  case q: False
  show ?thesis
  proof (cases "c = 0x5C")
    case False
    with q assms obtain t' where "parse_chars cs = Some (t', r)"
      by (auto split: if_splits dest: cons_unit_Some)
    then show ?thesis by blast
  next
    case True
    show ?thesis
    proof (cases cs)
      case Nil
      with True q assms show ?thesis by simp
    next
      case (Cons e es)
      show ?thesis
      proof (cases "e = 0x75")
        case u: True
        with True q Cons assms obtain h1 h2 h3 h4 r' t' where
          es: "es = h1 # h2 # h3 # h4 # r'" and p: "parse_chars r' = Some (t', r)"
          by (auto split: list.splits option.splits dest: cons_unit_Some)
        from es Cons have "length r' \<le> length cs" by simp
        with p show ?thesis by blast
      next
        case nu: False
        with True q Cons assms obtain x t' where
          x: "simple_escape e = Some x" and p: "parse_chars es = Some (t', r)"
          by (auto split: option.splits dest: cons_unit_Some)
        from Cons have "length es \<le> length cs" by simp
        with p show ?thesis by blast
      qed
    qed
  qed
qed

lemma parse_chars_length:
  "parse_chars s = Some (t, r) \<Longrightarrow> length r < length s"
proof (induction s arbitrary: t rule: length_induct)
  case (1 s)
  show ?case
  proof (cases s)
    case Nil
    with "1.prems" show ?thesis by simp
  next
    case (Cons c cs)
    with "1.prems" parse_chars_step [of c cs t r]
    consider "r = cs" | t' s' where "parse_chars s' = Some (t', r)" "length s' \<le> length cs"
      by blast
    then show ?thesis
    proof cases
      case 1
      with Cons show ?thesis by simp
    next
      case 2
      with Cons "1.IH" have "length r < length s'" by simp
      with 2 Cons show ?thesis by simp
    qed
  qed
qed

lemma scan_unsigned_length:
  "scan_unsigned s = Some (t, r) \<Longrightarrow> length r < length s"
proof -
  assume a: "scan_unsigned s = Some (t, r)"
  then obtain i s1 f s2 e where
    i: "scan_int s = Some (i, s1)" and f: "scan_frac s1 = Some (f, s2)" and e: "scan_exp s2 = Some (e, r)"
    by (auto simp add: scan_unsigned_def split: option.splits prod.splits)
  have 1: "length s1 < length s"
    using i length_dropWhile_le [of is_digit s] length_dropWhile_le [of is_digit "tl s"]
    by (auto simp add: scan_int_def split: list.splits if_splits)
  have 2: "length s2 \<le> length s1"
    using f length_dropWhile_le [of is_digit "tl s1"]
    by (auto simp add: scan_frac_def split: list.splits if_splits)
  have 3: "length r \<le> length s2"
    using e length_dropWhile_le [of is_digit "tl s2"] length_dropWhile_le [of is_digit "tl (tl s2)"]
    by (auto simp add: scan_exp_def split: list.splits if_splits)
  from 1 2 3 show ?thesis by simp
qed

lemma scan_number_length:
  "scan_number s = Some (t, r) \<Longrightarrow> length r < length s"
  by (cases s) (auto simp add: scan_number_def split: if_splits
      dest!: cons_unit_Some scan_unsigned_length)

lemma literal_drop: "take k s = w \<Longrightarrow> w \<noteq> [] \<Longrightarrow> length (drop k s) < length s"
  by (cases s; cases k) auto

lemma fuel_value_step:
  assumes E: "\<And>acc s v r. parse_elements n acc s = Some (v, r) \<Longrightarrow>
      length r < length s \<and> (\<forall>m. 2 * (length s - length r) \<le> m \<longrightarrow> parse_elements m acc s = Some (v, r))"
    and M: "\<And>acc s v r. parse_members n acc s = Some (v, r) \<Longrightarrow>
      length r < length s \<and> (\<forall>m. 2 * (length s - length r) \<le> m \<longrightarrow> parse_members m acc s = Some (v, r))"
    and a: "parse_value (Suc n) s = Some (v, r)"
  shows "length r < length s \<and> (\<forall>m. 2 * (length s - length r) \<le> m \<longrightarrow> parse_value m s = Some (v, r))"
proof -
  from a obtain c cs where s: "skip_ws s = c # cs"
    by (cases "skip_ws s") simp_all
  then have cs: "length cs < length s"
    by (rule skip_ws_Cons)
  have *: "length r < length s \<and> (\<forall>m'. 2 * (length s - length r) \<le> Suc m' \<longrightarrow> parse_value (Suc m') s = Some (v, r))"
  proof (cases "c = 0x7B")
    case True
    with a s obtain d ds where d: "skip_ws cs = d # ds"
      by (cases "skip_ws cs") simp_all
    then have ds: "length ds < length cs"
      by (rule skip_ws_Cons)
    show ?thesis
    proof (cases "d = 0x7D")
      case b: True
      with a s True d have "v = JObject []" "r = ds" by simp_all
      with s True d b ds cs show ?thesis by simp
    next
      case b: False
      with a s True d have p: "parse_members n [] (d # ds) = Some (v, r)" by simp
      from M [OF p] have 1: "length r < length (d # ds)"
        and 2: "\<And>m. 2 * (length (d # ds) - length r) \<le> m \<Longrightarrow> parse_members m [] (d # ds) = Some (v, r)"
        by blast+
      from 1 ds cs have "length r < length s" by simp
      moreover have "parse_value (Suc m') s = Some (v, r)" if "2 * (length s - length r) \<le> Suc m'" for m'
      proof -
        from that 1 ds cs have "2 * (length (d # ds) - length r) \<le> m'" by simp
        from 2 [OF this] s True d b show ?thesis by simp
      qed
      ultimately show ?thesis by blast
    qed
  next
    case nb: False
    show ?thesis
    proof (cases "c = 0x5B")
      case True
      with a s nb obtain d ds where d: "skip_ws cs = d # ds"
        by (cases "skip_ws cs") simp_all
      then have ds: "length ds < length cs"
        by (rule skip_ws_Cons)
      show ?thesis
      proof (cases "d = 0x5D")
        case b: True
        with a s True d have "v = JArray []" "r = ds" by simp_all
        with s True d b ds cs show ?thesis by simp
      next
        case b: False
        with a s True d have p: "parse_elements n [] (d # ds) = Some (v, r)" by simp
        from E [OF p] have 1: "length r < length (d # ds)"
          and 2: "\<And>m. 2 * (length (d # ds) - length r) \<le> m \<Longrightarrow> parse_elements m [] (d # ds) = Some (v, r)"
          by blast+
        from 1 ds cs have "length r < length s" by simp
        moreover have "parse_value (Suc m') s = Some (v, r)" if "2 * (length s - length r) \<le> Suc m'" for m'
        proof -
          from that 1 ds cs have "2 * (length (d # ds) - length r) \<le> m'" by simp
          from 2 [OF this] s True d b show ?thesis by simp
        qed
        ultimately show ?thesis by blast
      qed
    next
      case na: False
      from a s nb na have eq: "parse_value (Suc m') s = Some (v, r)" for m'
        by simp
      have "length r < length (c # cs)"
      proof (cases "c = 0x22")
        case True
        with a s nb na obtain t where "parse_chars cs = Some (t, r)"
          by (auto split: option.splits)
        then have "length r < length cs" by (rule parse_chars_length)
        then show ?thesis by simp
      next
        case nq: False
        from a s nb na nq show ?thesis
          by (auto simp add: ascii_def split: if_splits option.splits
              dest: scan_number_length literal_drop)
      qed
      with skip_ws_length [of s] s have "length r < length s" by simp
      with eq show ?thesis by blast
    qed
  qed
  show ?thesis
  proof (intro conjI allI impI)
    from * show "length r < length s" by blast
  next
    fix m assume m: "2 * (length s - length r) \<le> m"
    with * obtain m' where "m = Suc m'" by (cases m) auto
    with * m show "parse_value m s = Some (v, r)" by blast
  qed
qed

lemma fuel_elements_step:
  assumes V: "\<And>s v r. parse_value n s = Some (v, r) \<Longrightarrow>
      length r < length s \<and> (\<forall>m. 2 * (length s - length r) \<le> m \<longrightarrow> parse_value m s = Some (v, r))"
    and E: "\<And>acc s v r. parse_elements n acc s = Some (v, r) \<Longrightarrow>
      length r < length s \<and> (\<forall>m. 2 * (length s - length r) \<le> m \<longrightarrow> parse_elements m acc s = Some (v, r))"
    and a: "parse_elements (Suc n) acc s = Some (v, r)"
  shows "length r < length s \<and> (\<forall>m. 2 * (length s - length r) \<le> m \<longrightarrow> parse_elements m acc s = Some (v, r))"
proof -
  from a obtain v1 r1 where p1: "parse_value n s = Some (v1, r1)"
    by (cases "parse_value n s") auto
  from V [OF p1] have l1: "length r1 < length s"
    and f1: "\<And>m. 2 * (length s - length r1) \<le> m \<Longrightarrow> parse_value m s = Some (v1, r1)"
    by blast+
  from a p1 obtain c cs where w: "skip_ws r1 = c # cs"
    by (cases "skip_ws r1") simp_all
  then have cs: "length cs < length r1"
    by (rule skip_ws_Cons)
  have *: "length r < length s \<and> (\<forall>m'. 2 * (length s - length r) \<le> Suc m' \<longrightarrow> parse_elements (Suc m') acc s = Some (v, r))"
  proof (cases "c = 0x2C")
    case True
    with a p1 w have p2: "parse_elements n (acc @ [v1]) cs = Some (v, r)" by simp
    from E [OF p2] have l2: "length r < length cs"
      and f2: "\<And>m. 2 * (length cs - length r) \<le> m \<Longrightarrow> parse_elements m (acc @ [v1]) cs = Some (v, r)"
      by blast+
    from l2 cs l1 have "length r < length s" by simp
    moreover have "parse_elements (Suc m') acc s = Some (v, r)" if "2 * (length s - length r) \<le> Suc m'" for m'
    proof -
      from that l1 l2 cs have "2 * (length s - length r1) \<le> m'" "2 * (length cs - length r) \<le> m'"
        by simp_all
      with f1 f2 have "parse_value m' s = Some (v1, r1)" "parse_elements m' (acc @ [v1]) cs = Some (v, r)"
        by blast+
      with w True show ?thesis by simp
    qed
    ultimately show ?thesis by blast
  next
    case False
    with a p1 w have c: "c = 0x5D" and v: "v = JArray (acc @ [v1])" and r: "r = cs"
      by (auto split: if_splits)
    from r cs l1 have "length r < length s" by simp
    moreover have "parse_elements (Suc m') acc s = Some (v, r)" if "2 * (length s - length r) \<le> Suc m'" for m'
    proof -
      from that l1 r cs have "2 * (length s - length r1) \<le> m'"
        by simp
      with f1 have "parse_value m' s = Some (v1, r1)"
        by blast
      with w c v r show ?thesis by simp
    qed
    ultimately show ?thesis by blast
  qed
  show ?thesis
  proof (intro conjI allI impI)
    from * show "length r < length s" by blast
  next
    fix m assume m: "2 * (length s - length r) \<le> m"
    with * obtain m' where "m = Suc m'" by (cases m) auto
    with * m show "parse_elements m acc s = Some (v, r)" by blast
  qed
qed

lemma fuel_members_step:
  assumes V: "\<And>s v r. parse_value n s = Some (v, r) \<Longrightarrow>
      length r < length s \<and> (\<forall>m. 2 * (length s - length r) \<le> m \<longrightarrow> parse_value m s = Some (v, r))"
    and M: "\<And>acc s v r. parse_members n acc s = Some (v, r) \<Longrightarrow>
      length r < length s \<and> (\<forall>m. 2 * (length s - length r) \<le> m \<longrightarrow> parse_members m acc s = Some (v, r))"
    and a: "parse_members (Suc n) acc s = Some (v, r)"
  shows "length r < length s \<and> (\<forall>m. 2 * (length s - length r) \<le> m \<longrightarrow> parse_members m acc s = Some (v, r))"
proof -
  from a obtain q cs where s: "skip_ws s = q # cs"
    by (cases "skip_ws s") simp_all
  then have cs: "length cs < length s"
    by (rule skip_ws_Cons)
  from a s have q: "q = 0x22"
    by (auto split: if_splits)
  from a s q obtain k r0 where k: "parse_chars cs = Some (k, r0)"
    by (cases "parse_chars cs") auto
  then have r0: "length r0 < length cs"
    by (rule parse_chars_length)
  from a s q k obtain c r1 where w1: "skip_ws r0 = c # r1"
    by (cases "skip_ws r0") simp_all
  then have r1: "length r1 < length r0"
    by (rule skip_ws_Cons)
  from a s q k w1 have c: "c = 0x3A"
    by (auto split: if_splits)
  from a s q k w1 c obtain v1 r2 where p1: "parse_value n r1 = Some (v1, r2)"
    by (cases "parse_value n r1") auto
  from V [OF p1] have l1: "length r2 < length r1"
    and f1: "\<And>m. 2 * (length r1 - length r2) \<le> m \<Longrightarrow> parse_value m r1 = Some (v1, r2)"
    by blast+
  from a s q k w1 c p1 obtain d r3 where w2: "skip_ws r2 = d # r3"
    by (cases "skip_ws r2") simp_all
  then have r3: "length r3 < length r2"
    by (rule skip_ws_Cons)
  have *: "length r < length s \<and> (\<forall>m'. 2 * (length s - length r) \<le> Suc m' \<longrightarrow> parse_members (Suc m') acc s = Some (v, r))"
  proof (cases "d = 0x2C")
    case True
    with a s q k w1 c p1 w2 have p2: "parse_members n (obj_put acc k v1) r3 = Some (v, r)" by simp
    from M [OF p2] have l2: "length r < length r3"
      and f2: "\<And>m. 2 * (length r3 - length r) \<le> m \<Longrightarrow> parse_members m (obj_put acc k v1) r3 = Some (v, r)"
      by blast+
    from l2 r3 l1 r1 r0 cs have "length r < length s" by simp
    moreover have "parse_members (Suc m') acc s = Some (v, r)" if "2 * (length s - length r) \<le> Suc m'" for m'
    proof -
      from that l2 r3 l1 r1 r0 cs have "2 * (length r1 - length r2) \<le> m'" "2 * (length r3 - length r) \<le> m'"
        by simp_all
      with f1 f2 have "parse_value m' r1 = Some (v1, r2)" "parse_members m' (obj_put acc k v1) r3 = Some (v, r)"
        by blast+
      with s q k w1 c w2 True show ?thesis by simp
    qed
    ultimately show ?thesis by blast
  next
    case False
    with a s q k w1 c p1 w2 have d: "d = 0x7D" and v: "v = JObject (obj_put acc k v1)" and r: "r = r3"
      by (auto split: if_splits)
    from r r3 l1 r1 r0 cs have "length r < length s" by simp
    moreover have "parse_members (Suc m') acc s = Some (v, r)" if "2 * (length s - length r) \<le> Suc m'" for m'
    proof -
      from that r r3 l1 r1 r0 cs have "2 * (length r1 - length r2) \<le> m'"
        by simp
      with f1 have "parse_value m' r1 = Some (v1, r2)"
        by blast
      with s q k w1 c w2 d v r show ?thesis by simp
    qed
    ultimately show ?thesis by blast
  qed
  show ?thesis
  proof (intro conjI allI impI)
    from * show "length r < length s" by blast
  next
    fix m assume m: "2 * (length s - length r) \<le> m"
    with * obtain m' where "m = Suc m'" by (cases m) auto
    with * m show "parse_members m acc s = Some (v, r)" by blast
  qed
qed

lemma parse_fuel_all:
  "(\<forall>s v r. parse_value n s = Some (v, r) \<longrightarrow>
      length r < length s \<and> (\<forall>m. 2 * (length s - length r) \<le> m \<longrightarrow> parse_value m s = Some (v, r)))
   \<and> (\<forall>acc s v r. parse_elements n acc s = Some (v, r) \<longrightarrow>
      length r < length s \<and> (\<forall>m. 2 * (length s - length r) \<le> m \<longrightarrow> parse_elements m acc s = Some (v, r)))
   \<and> (\<forall>acc s v r. parse_members n acc s = Some (v, r) \<longrightarrow>
      length r < length s \<and> (\<forall>m. 2 * (length s - length r) \<le> m \<longrightarrow> parse_members m acc s = Some (v, r)))"
proof (induction n)
  case 0
  show ?case by simp
next
  case (Suc n)
  then have V: "\<And>s v r. parse_value n s = Some (v, r) \<Longrightarrow>
      length r < length s \<and> (\<forall>m. 2 * (length s - length r) \<le> m \<longrightarrow> parse_value m s = Some (v, r))"
    and E: "\<And>acc s v r. parse_elements n acc s = Some (v, r) \<Longrightarrow>
      length r < length s \<and> (\<forall>m. 2 * (length s - length r) \<le> m \<longrightarrow> parse_elements m acc s = Some (v, r))"
    and M: "\<And>acc s v r. parse_members n acc s = Some (v, r) \<Longrightarrow>
      length r < length s \<and> (\<forall>m. 2 * (length s - length r) \<le> m \<longrightarrow> parse_members m acc s = Some (v, r))"
    by blast+
  show ?case
    using fuel_value_step [OF E M] fuel_elements_step [OF V E] fuel_members_step [OF V M]
    by blast
qed

lemma parse_value_fuel:
  assumes "parse_value n s = Some (v, r)"
  shows "parse_value (2 * length s + 2) s = Some (v, r)"
proof -
  from parse_fuel_all [of n] assms
  have "\<forall>m. 2 * (length s - length r) \<le> m \<longrightarrow> parse_value m s = Some (v, r)"
    by blast
  moreover have "2 * (length s - length r) \<le> 2 * length s + 2"
    by simp
  ultimately show ?thesis by blast
qed

lemma JSON_parse_complete:
  assumes "parse_value n s = Some (v, r)" and "skip_ws r = []"
  shows "JSON_parse s = Some v"
  using assms(2) parse_value_fuel [OF assms(1)]
  by (simp add: JSON_parse_def del: parse_value.simps)

section \<open>Looking up and replacing in the document\<close>

text \<open>
  The path returned by the lookup leads to an element with the id asked for, and is
  still what the lookup returns after the children of that element have been replaced.
\<close>

lemma find_nodes_nonempty: "find_nodes i ns = Some p \<Longrightarrow> p \<noteq> []"
proof (induction ns arbitrary: p)
  case Nil
  then show ?case by simp
next
  case (Cons n ns)
  then show ?case
    by (cases "find_nodes i ns"; cases "find_node i n") (auto split: option.splits elim: shift.elims)
qed

lemma find_nodes_Cons_0:
  "find_nodes i (n # ns) = Some (0 # q) \<longleftrightarrow> find_node i n = Some q"
proof (cases "find_node i n")
  case None
  then show ?thesis
    by (auto split: option.splits elim: shift.elims)
next
  case (Some a)
  then show ?thesis by simp
qed

lemma find_nodes_Cons_Suc:
  "find_nodes i (n # ns) = Some (Suc k # q) \<longleftrightarrow>
     find_node i n = None \<and> find_nodes i ns = Some (k # q)"
proof (cases "find_node i n")
  case None
  show ?thesis
  proof (cases "find_nodes i ns")
    case N: None
    with None show ?thesis by simp
  next
    case (Some p)
    then obtain k' q' where "p = k' # q'"
      using find_nodes_nonempty [of i ns p] by (cases p) auto
    with None Some show ?thesis by auto
  qed
next
  case (Some a)
  then show ?thesis by simp
qed

lemma find_node_Nil:
  "find_node i n = Some [] \<longleftrightarrow> (\<exists>t v cs. n = Element t (Some i) v cs)"
proof (cases n)
  case (Text d)
  then show ?thesis by simp
next
  case (Element t e v cs)
  then show ?thesis
    using find_nodes_nonempty [of i cs "[]"] by auto
qed

lemma find_node_Cons:
  "find_node i n = Some (k # q) \<longleftrightarrow>
     (\<exists>t e v cs. n = Element t e v cs \<and> e \<noteq> Some i \<and> find_nodes i cs = Some (k # q))"
  by (cases n) auto

lemma find_nodes_node_at:
  "find_nodes i ns = Some p \<Longrightarrow> \<exists>t v cs. node_at ns p = Some (Element t (Some i) v cs)"
proof (induction ns p rule: node_at.induct)
  case (1 p)
  then show ?case by simp
next
  case (2 n ns)
  then show ?case using find_nodes_nonempty by blast
next
  case (3 n ns q)
  from "3.prems" have f: "find_node i n = Some q"
    by (simp only: find_nodes_Cons_0)
  show ?case
  proof (cases q)
    case Nil
    with f show ?thesis by (auto simp add: find_node_Nil)
  next
    case (Cons k q')
    with f obtain t e v cs where n: "n = Element t e v cs" and c: "find_nodes i cs = Some q"
      by (auto simp add: find_node_Cons)
    with "3.IH" [of t e v cs] Cons show ?thesis by simp
  qed
next
  case (4 n ns k q)
  from "4.prems" have "find_nodes i ns = Some (k # q)"
    by (simp only: find_nodes_Cons_Suc)
  with "4.IH" show ?case by simp
qed

lemma find_nodes_replace_same:
  "find_nodes i ns = Some p \<Longrightarrow> find_nodes i (replace_children ns p new) = Some p"
proof (induction ns p new rule: replace_children.induct)
  case (1 p new)
  then show ?case by simp
next
  case (2 n ns new)
  then show ?case using find_nodes_nonempty by blast
next
  case (3 n ns q new)
  from "3.prems" have f: "find_node i n = Some q"
    by (simp only: find_nodes_Cons_0)
  show ?case
  proof (cases q)
    case Nil
    with f obtain t v cs where "n = Element t (Some i) v cs"
      by (auto simp add: find_node_Nil)
    with Nil show ?thesis by simp
  next
    case (Cons k q')
    with f obtain t e v cs where n: "n = Element t e v cs" and e: "e \<noteq> Some i"
      and c: "find_nodes i cs = Some q"
      by (auto simp add: find_node_Cons)
    from "3.IH" [OF n _ c] Cons have "find_nodes i (replace_children cs q new) = Some q"
      by simp
    with n e Cons show ?thesis by simp
  qed
next
  case (4 n ns k q new)
  from "4.prems" have a: "find_node i n = None" and b: "find_nodes i ns = Some (k # q)"
    by (simp_all only: find_nodes_Cons_Suc)
  from "4.IH" [OF b] a show ?case by simp
qed

lemma node_at_replace_same:
  "node_at ns p = Some (Element t e v cs) \<Longrightarrow>
   node_at (replace_children ns p new) p = Some (Element t e v new)"
proof (induction ns p new rule: replace_children.induct)
  case (3 n ns q new)
  then show ?case by (cases n) (auto split: if_splits)
qed simp_all

lemma replace_children_twice:
  "replace_children (replace_children ns p new) p new' = replace_children ns p new'"
proof (induction ns p new rule: replace_children.induct)
  case (3 n ns q new)
  then show ?case by (cases n) auto
qed simp_all

text \<open>
  The rendered text fragment: its text content is the string without its line breaks, a
  string without line breaks gives a single text node, and no node of it has an id.
\<close>

lemma textContent_nodes_append:
  "textContent_nodes (a @ b) = textContent_nodes a @ textContent_nodes b"
  by (induction a) simp_all

lemma textContent_flush: "textContent_nodes (flush run) = run"
  by (simp add: flush_def)

lemma textContent_br: "textContent br = []"
  by (simp add: br_def)

lemma textContent_fragment_from:
  "textContent_nodes (fragment_from run s) = run @ without_line_breaks s"
  by (induction run s rule: fragment_from.induct)
    (auto simp add: textContent_nodes_append textContent_flush textContent_br
      without_line_breaks_def is_line_break_def)

lemma fragment_from_no_line_break:
  "\<forall>c \<in> set s. \<not> is_line_break c \<Longrightarrow> fragment_from run s = flush (run @ s)"
  by (induction run s rule: fragment_from.induct) (auto simp add: is_line_break_def)










section \<open>The three ways a call can go\<close>


lemma chat_request_body:
  \<open>chat_request nt m =
     \<lparr>url = ascii ''/api/chat'', http_method = ascii ''POST'',
      headers = [(ascii ''Content-Type'', ascii ''application/json'')],
      body = Some (ascii ''{"message":"'' @ quote_units m @ ascii ''"}'')\<rparr>\<close>
  unfolding chat_request_def message_body_text
  by (simp only: option.map USVString_message_body)

lemma try_block_sent:
  "snd (try_block ev doc m ref) = [chat_request (number_text ev) m]"
  by (simp add: try_block_def Let_def)


lemma get_value_Inl: "get_value doc ref = Inl e \<Longrightarrow> e = TypeError"
  by (auto simp add: get_value_def split: option.splits node.splits)


lemma input_text_Some:
  "input_text doc = Some m \<longleftrightarrow> get_value doc (getElementById doc (ascii ''message'')) = Inr m"
  by (simp add: input_text_def split: sum.splits)

lemma requests_sendMessage:
  "input_text doc = Some m \<Longrightarrow>
   requests (sendMessage ev doc) = [chat_request (number_text ev) m]"
  using try_block_sent [of ev doc m "getElementById doc (ascii ''response'')"]
  by (simp add: input_text_Some sendMessage_def Let_def case_prod_beta split: sum.splits)

lemma try_block_reply_text:
  "fst (try_block ev doc m (Some p)) =
     (case reply_text ev m of
        Inl e \<Rightarrow> Inl e
      | Inr s \<Rightarrow> Inr (replace_children doc p (rendered_text_fragment s)))"
  by (simp add: try_block_def Let_def reply_text_def set_innerText_def
      split: fetch_outcome.splits sum.splits)

lemma try_block_no_output: "\<exists>e. fst (try_block ev doc m None) = Inl e"
  by (simp add: try_block_def Let_def set_innerText_def split: fetch_outcome.splits sum.splits)

lemma sendMessage_present:
  assumes "input_text doc = Some m" and "getElementById doc (ascii ''response'') = Some p"
  shows "sendMessage ev doc =
     \<lparr>completion = Inr (),
      final_doc = replace_children doc p (rendered_text_fragment (shown_text ev m)),
      requests = [chat_request (number_text ev) m]\<rparr>"
  using assms try_block_sent [of ev doc m "Some p"] try_block_reply_text [of ev doc m p]
  by (simp add: input_text_Some sendMessage_def Let_def case_prod_beta set_innerText_def
      DOMString_def shown_text_def split: sum.splits)

lemma sendMessage_no_output:
  assumes "input_text doc = Some m" and "getElementById doc (ascii ''response'') = None"
  shows "sendMessage ev doc =
     \<lparr>completion = Inl TypeError, final_doc = doc,
      requests = [chat_request (number_text ev) m]\<rparr>"
proof -
  obtain e where "fst (try_block ev doc m None) = Inl e"
    using try_block_no_output by blast
  with assms try_block_sent [of ev doc m None] show ?thesis
    by (simp add: input_text_Some sendMessage_def set_innerText_def Let_def case_prod_beta)
qed


lemma output_children_replace:
  assumes "getElementById doc (ascii ''response'') = Some p"
  shows "output_children (replace_children doc p new) = Some new"
proof -
  obtain t v cs where n: "node_at doc p = Some (Element t (Some (ascii ''response'')) v cs)"
    using assms find_nodes_node_at [of "ascii ''response''" doc p]
    by (auto simp add: getElementById_def)
  have "getElementById (replace_children doc p new) (ascii ''response'') = Some p"
    using assms by (simp add: getElementById_def find_nodes_replace_same)
  with node_at_replace_same [OF n, of new] show ?thesis
    by (simp add: output_children_def)
qed

lemma displayed_replace:
  assumes "getElementById doc (ascii ''response'') = Some p"
  shows "displayed (replace_children doc p (rendered_text_fragment s)) = Some (without_line_breaks s)"
  by (simp add: displayed_def output_children_replace [OF assms] rendered_text_fragment_def
      textContent_fragment_from)

lemma without_line_breaks_id:
  "\<forall>c \<in> set s. \<not> is_line_break c \<Longrightarrow> without_line_breaks s = s"
  by (simp add: without_line_breaks_def)

lemma error_text_plain: "without_line_breaks error_text = error_text"
  by (rule without_line_breaks_id) (simp add: error_text_def ascii_def is_line_break_def)

lemma undefined_plain: "without_line_breaks (ascii ''undefined'') = ascii ''undefined''"
  by (rule without_line_breaks_id) (simp add: ascii_def is_line_break_def)

lemma reply_text_success:
  assumes "fetch ev (chat_request (number_text ev) m) = Fulfils res"
    and "body_text res = Some t" and "JSON_parse t = Some data"
    and "get_response data = Inr v" and "DOMString (number_text ev) v = Inr s"
  shows "reply_text ev m = Inr s"
  using assms by (simp add: reply_text_def json_def)

lemma reply_text_failure:
  assumes "fetch ev (chat_request (number_text ev) m) = Rejects
         \<or> (\<exists>res. fetch ev (chat_request (number_text ev) m) = Fulfils res
               \<and> (body_text res = None \<or> (\<exists>t. body_text res = Some t \<and> JSON_parse t = None)))"
  shows "\<exists>e. reply_text ev m = Inl e"
  using assms by (auto simp add: reply_text_def json_def)


lemma shown_text_Inr: "reply_text ev m = Inr s \<Longrightarrow> shown_text ev m = s"
  by (simp add: shown_text_def)

lemma shown_text_Inl: "reply_text ev m = Inl e \<Longrightarrow> shown_text ev m = error_text"
  by (simp add: shown_text_def)



lemma chat_page_input: "input_text (chat_page m x) = Some m"
  by (simp add: input_text_def get_value_def getElementById_def chat_page_def)

lemma chat_page_output: "getElementById (chat_page m x) (ascii ''response'') = Some [1]"
  by (simp add: getElementById_def chat_page_def ascii_def)

section \<open>The request\<close>

text \<open>
  Claim C1. Whatever text the input field holds, one call issues exactly one request: a
  \<^verbatim>\<open>POST\<close> to \<^verbatim>\<open>/api/chat\<close> with the header \<^verbatim>\<open>Content-Type: application/json\<close>, whose
  body parses as JSON to the object with the single property \<^verbatim>\<open>message\<close> holding that
  exact text. The body is the one \<^verbatim>\<open>fetch\<close> sends, after its conversion of the string.
\<close>

theorem sendMessage_posts_input:
  assumes "input_text doc = Some m"
  shows "\<exists>b. requests (sendMessage ev doc) =
            [\<lparr>url = ascii ''/api/chat'', http_method = ascii ''POST'',
              headers = [(ascii ''Content-Type'', ascii ''application/json'')],
              body = Some b\<rparr>]
         \<and> JSON_parse b = Some (JObject [(ascii ''message'', JString m)])"
  using assms by (simp add: requests_sendMessage chat_request_body parse_message_body)

text \<open>An instance: the input field holds \<^verbatim>\<open>hi\<close> and the server cannot be reached.\<close>

theorem sendMessage_posts_input_witness:
  "input_text (chat_page (ascii ''hi'') []) = Some (ascii ''hi'')
   \<and> (\<exists>b. requests (sendMessage (server Rejects) (chat_page (ascii ''hi'') [])) =
            [\<lparr>url = ascii ''/api/chat'', http_method = ascii ''POST'',
              headers = [(ascii ''Content-Type'', ascii ''application/json'')],
              body = Some b\<rparr>]
         \<and> JSON_parse b = Some (JObject [(ascii ''message'', JString (ascii ''hi''))]))"
  using chat_page_input [of "ascii ''hi''" "[]"]
    sendMessage_posts_input [of "chat_page (ascii ''hi'') []" "ascii ''hi''" "server Rejects"]
  by blast

lemma parse_empty_message:
  \<open>JSON_parse (ascii ''{"message":""}'') = Some (JObject [(ascii ''message'', JString [])])\<close>
  by code_simp

text \<open>
  Claim C4. With the empty string in the input field the request is still issued, and its
  body is the text \<^verbatim>\<open>{"message":""}\<close>, which parses to the object whose \<^verbatim>\<open>message\<close> is
  the empty string: nothing checks the input before the call of \<^verbatim>\<open>fetch\<close>.
\<close>

theorem empty_input_still_posted:
  assumes "input_text doc = Some []"
  shows \<open>requests (sendMessage ev doc) =
           [\<lparr>url = ascii ''/api/chat'', http_method = ascii ''POST'',
             headers = [(ascii ''Content-Type'', ascii ''application/json'')],
             body = Some (ascii ''{"message":""}'')\<rparr>]
         \<and> JSON_parse (ascii ''{"message":""}'') = Some (JObject [(ascii ''message'', JString [])])\<close>
  using assms by (simp add: requests_sendMessage chat_request_body parse_empty_message) (simp add: ascii_def)

text \<open>An instance: a page whose input field is empty.\<close>

theorem empty_input_still_posted_witness:
  \<open>requests (sendMessage (server Rejects) (chat_page [] [])) =
           [\<lparr>url = ascii ''/api/chat'', http_method = ascii ''POST'',
             headers = [(ascii ''Content-Type'', ascii ''application/json'')],
             body = Some (ascii ''{"message":""}'')\<rparr>]
         \<and> JSON_parse (ascii ''{"message":""}'') = Some (JObject [(ascii ''message'', JString [])])\<close>
  by (rule empty_input_still_posted [of "chat_page [] []", OF chat_page_input])

text \<open>
  Claim C10. Without an element with id \<^verbatim>\<open>message\<close> the lookup yields \<^verbatim>\<open>null\<close> and reading
  its \<^verbatim>\<open>value\<close> throws before the \<^verbatim>\<open>try\<close> block: the call ends in a \<^verbatim>\<open>TypeError\<close>, no
  request is issued and the document, the output element's text included, is as before.
\<close>

theorem missing_input_throws:
  assumes "getElementById doc (ascii ''message'') = None"
  shows "sendMessage ev doc = \<lparr>completion = Inl TypeError, final_doc = doc, requests = []\<rparr>"
  using assms by (simp add: sendMessage_def get_value_def)

text \<open>An instance: a page with the output element only, showing \<^verbatim>\<open>old\<close>.\<close>

theorem missing_input_throws_witness:
  "sendMessage (server Rejects)
       [Element (ascii ''div'') (Some (ascii ''response'')) [] [Text (ascii ''old'')]]
     = \<lparr>completion = Inl TypeError,
        final_doc = [Element (ascii ''div'') (Some (ascii ''response'')) [] [Text (ascii ''old'')]],
        requests = []\<rparr>"
proof -
  have "getElementById [Element (ascii ''div'') (Some (ascii ''response'')) [] [Text (ascii ''old'')]]
      (ascii ''message'') = None"
    by (simp add: getElementById_def ascii_def)
  then show ?thesis
    by (rule missing_input_throws)
qed

section \<open>The reply\<close>

lemma parse_hello:
  \<open>JSON_parse (ascii ''{"response": "hello"}'')
     = Some (JObject [(ascii ''response'', JString (ascii ''hello''))])\<close>
  by code_simp

lemma parse_html: \<open>JSON_parse (ascii ''<html>'') = None\<close>
  by code_simp

text \<open>
  Claim C2, as the specification states it, says that the text content of the output
  element equals exactly the string in the \<^verbatim>\<open>response\<close> property. It does not when the
  string has a line break, for which the \<^verbatim>\<open>innerText\<close> setter writes a \<^verbatim>\<open>br\<close> element.
  For the reply \<^verbatim>\<open>{"response":"a\r\nb"}\<close> the children of the output element are the
  text \<^verbatim>\<open>a\<close>, a \<^verbatim>\<open>br\<close> and the text \<^verbatim>\<open>b\<close>, and its text content is \<^verbatim>\<open>ab\<close>. The document
  is the very one the reply \<^verbatim>\<open>{"response":"a\nb"}\<close> leaves, so nothing read from the
  page gives the string back.
\<close>

theorem line_break_not_exact:
  \<open>JSON_parse crlf_body = Some (JObject [(ascii ''response'', JString (ascii ''a'' @ [0x0D, 0x0A] @ ascii ''b''))])
   \<and> completion (sendMessage (server (reply 200 crlf_body)) (chat_page (ascii ''hi'') [])) = Inr ()
   \<and> output_children (final_doc (sendMessage (server (reply 200 crlf_body)) (chat_page (ascii ''hi'') [])))
       = Some [Text (ascii ''a''), br, Text (ascii ''b'')]
   \<and> displayed (final_doc (sendMessage (server (reply 200 crlf_body)) (chat_page (ascii ''hi'') [])))
       = Some (ascii ''ab'')
   \<and> displayed (final_doc (sendMessage (server (reply 200 crlf_body)) (chat_page (ascii ''hi'') [])))
       \<noteq> Some (ascii ''a'' @ [0x0D, 0x0A] @ ascii ''b'')
   \<and> JSON_parse lf_body = Some (JObject [(ascii ''response'', JString (ascii ''a'' @ [0x0A] @ ascii ''b''))])
   \<and> final_doc (sendMessage (server (reply 200 crlf_body)) (chat_page (ascii ''hi'') []))
       = final_doc (sendMessage (server (reply 200 lf_body)) (chat_page (ascii ''hi'') []))\<close>
  by code_simp

text \<open>
  Claim C2, amended. When the body of the reply parses as JSON to an object whose
  \<^verbatim>\<open>response\<close> property is a string, the call completes and the children of the output
  element are the rendered text fragment of that string: its runs of code units other
  than CR and LF as text nodes, with a \<^verbatim>\<open>br\<close> element for each line break. The text
  content of the output element is the string without its CR and LF; when the string
  has neither, the output element holds it in a single text node (no node when it is
  empty) and its text content equals exactly that string.
\<close>

theorem reply_text_rendered:
  assumes "input_text doc = Some m" and "getElementById doc (ascii ''response'') = Some p"
    and "fetch ev (chat_request (number_text ev) m) = Fulfils res"
    and "body_text res = Some t"
    and "JSON_parse t = Some (JObject kvs)"
    and "map_of kvs (ascii ''response'') = Some (JString s)"
  shows "completion (sendMessage ev doc) = Inr ()
       \<and> output_children (final_doc (sendMessage ev doc)) = Some (rendered_text_fragment s)
       \<and> displayed (final_doc (sendMessage ev doc)) = Some (without_line_breaks s)
       \<and> ((\<forall>c \<in> set s. \<not> is_line_break c) \<longrightarrow>
             output_children (final_doc (sendMessage ev doc)) = Some (if s = [] then [] else [Text s])
           \<and> displayed (final_doc (sendMessage ev doc)) = Some s)"
proof -
  have "get_response (JObject kvs) = Inr (JString s)"
    using assms(6) by (simp add: get_response_def)
  moreover have "DOMString (number_text ev) (JString s) = Inr s"
    by (simp add: DOMString_def)
  ultimately have "reply_text ev m = Inr s"
    using assms(3,4,5) by (rule reply_text_success [rotated 3])
  then have s: "shown_text ev m = s"
    by (rule shown_text_Inr)
  have f: "rendered_text_fragment s = (if s = [] then [] else [Text s])"
    if "\<forall>c \<in> set s. \<not> is_line_break c"
    using fragment_from_no_line_break [OF that, of "[]"]
    by (simp add: rendered_text_fragment_def flush_def)
  have r: "sendMessage ev doc =
      \<lparr>completion = Inr (), final_doc = replace_children doc p (rendered_text_fragment s),
       requests = [chat_request (number_text ev) m]\<rparr>"
    using sendMessage_present [OF assms(1,2), of ev] s by simp
  have c: "output_children (final_doc (sendMessage ev doc)) = Some (rendered_text_fragment s)"
    and d: "displayed (final_doc (sendMessage ev doc)) = Some (without_line_breaks s)"
    using displayed_replace [OF assms(2), of s] output_children_replace [OF assms(2)]
    by (simp_all add: r)
  have a: "completion (sendMessage ev doc) = Inr ()"
    by (simp add: r)
  have e: "output_children (final_doc (sendMessage ev doc)) = Some (if s = [] then [] else [Text s])
      \<and> displayed (final_doc (sendMessage ev doc)) = Some s"
    if n: "\<forall>c \<in> set s. \<not> is_line_break c"
    using c d f [OF n] without_line_breaks_id [OF n] by simp
  show ?thesis
    using a c d e by blast
qed

text \<open>An instance: the reply \<^verbatim>\<open>{"response": "hello"}\<close> puts \<^verbatim>\<open>hello\<close> on the page.\<close>

theorem reply_text_rendered_witness:
  \<open>completion (sendMessage (server (reply 200 (ascii ''{"response": "hello"}''))) (chat_page (ascii ''hi'') [])) = Inr ()
   \<and> output_children (final_doc (sendMessage (server (reply 200 (ascii ''{"response": "hello"}''))) (chat_page (ascii ''hi'') [])))
       = Some [Text (ascii ''hello'')]
   \<and> displayed (final_doc (sendMessage (server (reply 200 (ascii ''{"response": "hello"}''))) (chat_page (ascii ''hi'') [])))
       = Some (ascii ''hello'')\<close>
proof -
  let ?ev = \<open>server (reply 200 (ascii ''{"response": "hello"}''))\<close>
  have f: \<open>fetch ?ev (chat_request (number_text ?ev) (ascii ''hi''))
      = Fulfils \<lparr>status = 200, body_text = Some (ascii ''{"response": "hello"}'')\<rparr>\<close>
    by (simp add: server_def reply_def)
  have b: \<open>body_text \<lparr>status = 200, body_text = Some (ascii ''{"response": "hello"}'')\<rparr>
      = Some (ascii ''{"response": "hello"}'')\<close>
    by simp
  have m: "map_of [(ascii ''response'', JString (ascii ''hello''))] (ascii ''response'') = Some (JString (ascii ''hello''))"
    by simp
  have n: "\<forall>c \<in> set (ascii ''hello''). \<not> is_line_break c" "ascii ''hello'' \<noteq> []"
    by (simp_all add: ascii_def is_line_break_def)
  from reply_text_rendered [of "chat_page (ascii ''hi'') []" _ _ ?ev,
        OF chat_page_input chat_page_output f b parse_hello m]
  have a: "completion (sendMessage ?ev (chat_page (ascii ''hi'') [])) = Inr ()"
    and c: "(\<forall>c \<in> set (ascii ''hello''). \<not> is_line_break c) \<longrightarrow>
        output_children (final_doc (sendMessage ?ev (chat_page (ascii ''hi'') [])))
          = Some (if ascii ''hello'' = [] then [] else [Text (ascii ''hello'')])
      \<and> displayed (final_doc (sendMessage ?ev (chat_page (ascii ''hi'') []))) = Some (ascii ''hello'')"
    by blast+
  from c n have "output_children (final_doc (sendMessage ?ev (chat_page (ascii ''hi'') [])))
          = Some [Text (ascii ''hello'')]
      \<and> displayed (final_doc (sendMessage ?ev (chat_page (ascii ''hi'') []))) = Some (ascii ''hello'')"
    by (simp only: if_False simp_thms)
  with a show ?thesis by blast
qed

text \<open>
  Claim C3. Whatever fails inside the \<^verbatim>\<open>try\<close> block, be it the request being rejected, the
  body not being readable or the body not being a JSON text, the call completes and the
  output element shows the one fixed message; the kind of failure makes no difference.
\<close>

theorem failure_shows_error_text:
  assumes "input_text doc = Some m" and "getElementById doc (ascii ''response'') = Some p"
    and "fetch ev (chat_request (number_text ev) m) = Rejects
         \<or> (\<exists>res. fetch ev (chat_request (number_text ev) m) = Fulfils res
               \<and> (body_text res = None \<or> (\<exists>t. body_text res = Some t \<and> JSON_parse t = None)))"
  shows "completion (sendMessage ev doc) = Inr ()
       \<and> displayed (final_doc (sendMessage ev doc)) = Some error_text
       \<and> output_children (final_doc (sendMessage ev doc)) = Some [Text error_text]"
proof -
  obtain e where "reply_text ev m = Inl e"
    using reply_text_failure [OF assms(3)] by blast
  then have s: "shown_text ev m = error_text"
    by (rule shown_text_Inl)
  have "rendered_text_fragment error_text = [Text error_text]"
    unfolding rendered_text_fragment_def
    by (subst fragment_from_no_line_break)
      (simp_all add: error_text_def ascii_def is_line_break_def flush_def)
  then show ?thesis
    using displayed_replace [OF assms(2), of error_text] output_children_replace [OF assms(2)]
    by (simp add: sendMessage_present [OF assms(1,2)] s error_text_plain)
qed

text \<open>
  Two instances: a request that is rejected, and a reply of status 500 whose body is
  \<^verbatim>\<open><html>\<close>.
\<close>

theorem failure_shows_error_text_witness:
  \<open>(completion (sendMessage (server Rejects) (chat_page (ascii ''hi'') [])) = Inr ()
    \<and> displayed (final_doc (sendMessage (server Rejects) (chat_page (ascii ''hi'') []))) = Some error_text)
   \<and> (completion (sendMessage (server (reply 500 (ascii ''<html>''))) (chat_page (ascii ''hi'') [])) = Inr ()
    \<and> displayed (final_doc (sendMessage (server (reply 500 (ascii ''<html>''))) (chat_page (ascii ''hi'') [])))
         = Some error_text)\<close>
proof -
  have a: "fetch (server Rejects) rq = Rejects" for rq
    by (simp add: server_def)
  have b: \<open>\<exists>res. fetch (server (reply 500 (ascii ''<html>''))) rq = Fulfils res
      \<and> (body_text res = None \<or> (\<exists>t. body_text res = Some t \<and> JSON_parse t = None))\<close> for rq
    by (simp add: server_def reply_def parse_html)
  show ?thesis
    using
      failure_shows_error_text [of "chat_page (ascii ''hi'') []" _ _ "server Rejects",
        OF chat_page_input chat_page_output disjI1, OF a]
      failure_shows_error_text [of "chat_page (ascii ''hi'') []" _ _ \<open>server (reply 500 (ascii ''<html>''))\<close>,
        OF chat_page_input chat_page_output disjI2, OF b]
    by blast
qed



lemma parse_empty_object: \<open>JSON_parse (ascii ''{}'') = Some (JObject [])\<close>
  by code_simp

text \<open>
  Claim C6, as the specification states it, says that the output element ends up empty
  when the parsed object has no \<^verbatim>\<open>response\<close> property. It does not: for the body \<^verbatim>\<open>{}\<close>
  the value assigned is \<^verbatim>\<open>undefined\<close>, which the \<^verbatim>\<open>innerText\<close> setter converts to the
  nine letters \<^verbatim>\<open>undefined\<close>.
\<close>

theorem missing_field_not_empty:
  \<open>JSON_parse (ascii ''{}'') = Some (JObject [])
   \<and> map_of ([] :: (jsstring \<times> jsval) list) (ascii ''response'') = None
   \<and> displayed (final_doc (sendMessage (server (reply 200 (ascii ''{}''))) (chat_page (ascii ''hi'') [])))
       = Some (ascii ''undefined'')
   \<and> displayed (final_doc (sendMessage (server (reply 200 (ascii ''{}''))) (chat_page (ascii ''hi'') [])))
       \<noteq> Some []\<close>
  by code_simp

text \<open>
  Claim C6, amended. When the body of the reply parses as JSON to an object without a
  \<^verbatim>\<open>response\<close> property, the value assigned is \<^verbatim>\<open>undefined\<close> and the output element shows
  the text \<^verbatim>\<open>undefined\<close>.
\<close>

theorem missing_field_shows_undefined:
  assumes "input_text doc = Some m" and "getElementById doc (ascii ''response'') = Some p"
    and "fetch ev (chat_request (number_text ev) m) = Fulfils res"
    and "body_text res = Some t"
    and "JSON_parse t = Some (JObject kvs)"
    and "map_of kvs (ascii ''response'') = None"
  shows "completion (sendMessage ev doc) = Inr ()
       \<and> displayed (final_doc (sendMessage ev doc)) = Some (ascii ''undefined'')
       \<and> output_children (final_doc (sendMessage ev doc)) = Some [Text (ascii ''undefined'')]"
proof -
  have "get_response (JObject kvs) = Inr JUndefined"
    using assms(6) by (simp add: get_response_def)
  moreover have "DOMString (number_text ev) JUndefined = Inr (ascii ''undefined'')"
    by (simp add: DOMString_def)
  ultimately have "reply_text ev m = Inr (ascii ''undefined'')"
    using assms(3,4,5) by (rule reply_text_success [rotated 3])
  then have s: "shown_text ev m = ascii ''undefined''"
    by (rule shown_text_Inr)
  have "rendered_text_fragment (ascii ''undefined'') = [Text (ascii ''undefined'')]"
    unfolding rendered_text_fragment_def
    by (subst fragment_from_no_line_break) (simp_all add: ascii_def is_line_break_def flush_def)
  then show ?thesis
    using displayed_replace [OF assms(2), of "ascii ''undefined''"] output_children_replace [OF assms(2)]
    by (simp add: sendMessage_present [OF assms(1,2)] s undefined_plain)
qed

text \<open>An instance: the reply \<^verbatim>\<open>{}\<close>.\<close>

theorem missing_field_shows_undefined_witness:
  \<open>completion (sendMessage (server (reply 200 (ascii ''{}''))) (chat_page (ascii ''hi'') [])) = Inr ()
   \<and> displayed (final_doc (sendMessage (server (reply 200 (ascii ''{}''))) (chat_page (ascii ''hi'') [])))
       = Some (ascii ''undefined'')\<close>
proof -
  let ?ev = \<open>server (reply 200 (ascii ''{}''))\<close>
  have f: \<open>fetch ?ev (chat_request (number_text ?ev) (ascii ''hi''))
      = Fulfils \<lparr>status = 200, body_text = Some (ascii ''{}'')\<rparr>\<close>
    by (simp add: server_def reply_def)
  have b: \<open>body_text \<lparr>status = 200, body_text = Some (ascii ''{}'')\<rparr> = Some (ascii ''{}'')\<close>
    by simp
  have m: "map_of ([] :: (jsstring \<times> jsval) list) (ascii ''response'') = None"
    by simp
  show ?thesis
    using missing_field_shows_undefined
        [of "chat_page (ascii ''hi'') []" _ _ ?ev, OF chat_page_input chat_page_output f b parse_empty_object m]
    by blast
qed

section \<open>The status of the reply\<close>

text \<open>
  \<^verbatim>\<open>JSON.parse\<close> never yields \<^verbatim>\<open>undefined\<close>, so among the values a body can parse to only
  \<^verbatim>\<open>null\<close> makes the property access throw.
\<close>

lemma parse_members_object:
  "parse_members n acc s = Some (v, r) \<Longrightarrow> \<exists>kvs. v = JObject kvs"
proof (induction n arbitrary: acc s)
  case 0
  then show ?case by simp
next
  case (Suc n)
  then show ?case
    by (auto split: list.splits if_splits option.splits prod.splits)
qed

lemma parse_elements_array:
  "parse_elements n acc s = Some (v, r) \<Longrightarrow> \<exists>vs. v = JArray vs"
proof (induction n arbitrary: acc s)
  case 0
  then show ?case by simp
next
  case (Suc n)
  then show ?case
    by (auto split: list.splits if_splits option.splits prod.splits)
qed

lemma parse_value_defined:
  assumes "parse_value n s = Some (v, r)"
  shows "v \<noteq> JUndefined"
proof (cases n)
  case 0
  with assms show ?thesis by simp
next
  case (Suc k)
  with assms show ?thesis
    by (auto split: list.splits if_splits option.splits prod.splits
        dest: parse_members_object parse_elements_array)
qed

lemma JSON_parse_defined: "JSON_parse t \<noteq> Some JUndefined"
proof
  assume "JSON_parse t = Some JUndefined"
  then obtain r where "parse_value (2 * length t + 2) t = Some (JUndefined, r)"
    unfolding JSON_parse_def by (auto split: option.splits prod.splits if_splits)
  then show False
    using parse_value_defined by blast
qed

lemma get_response_parsed:
  assumes "JSON_parse t = Some data" and "data \<noteq> JNull"
  shows "\<exists>v. get_response data = Inr v"
proof -
  have "data \<noteq> JUndefined"
    using assms(1) JSON_parse_defined by auto
  with assms(2) show ?thesis
    by (cases data) (simp_all add: get_response_def)
qed

lemma json_with_status: "json (res\<lparr>status := st\<rparr>) = json res"
  by (simp add: json_def)

lemma try_block_with_status: "try_block (with_status st ev) doc m ref = try_block ev doc m ref"
  by (simp add: try_block_def Let_def with_status_def json_with_status split: fetch_outcome.splits sum.splits)

lemma sendMessage_with_status: "sendMessage (with_status st ev) doc = sendMessage ev doc"
proof -
  have n: "number_text (with_status st ev) = number_text ev"
    by (simp add: with_status_def)
  show ?thesis
    unfolding sendMessage_def try_block_with_status n ..
qed

text \<open>
  Claim C5, as the specification states it, says that a reply counts as a success as
  long as its body parses as JSON. It does not for the body \<^verbatim>\<open>null\<close>: the body parses,
  reading \<^verbatim>\<open>response\<close> of \<^verbatim>\<open>null\<close> throws inside the \<^verbatim>\<open>try\<close> block, and the output element
  shows the fixed message.
\<close>

theorem null_body_not_success:
  \<open>JSON_parse (ascii ''null'') = Some JNull
   \<and> fst (try_block (server (reply 200 (ascii ''null''))) (chat_page (ascii ''hi'') []) (ascii ''hi'')
        (Some [1])) = Inl TypeError
   \<and> displayed (final_doc (sendMessage (server (reply 200 (ascii ''null''))) (chat_page (ascii ''hi'') [])))
       = Some error_text\<close>
proof -
  have p: \<open>JSON_parse (ascii ''null'') = Some JNull\<close>
    by code_simp
  have t: \<open>fst (try_block (server (reply 200 (ascii ''null''))) (chat_page (ascii ''hi'') []) (ascii ''hi'')
        (Some [1])) = Inl TypeError\<close>
    by (simp add: try_block_def Let_def server_def reply_def json_def p get_response_def)
  have d: \<open>displayed (final_doc (sendMessage (server (reply 200 (ascii ''null''))) (chat_page (ascii ''hi'') [])))
       = Some error_text\<close>
    by code_simp
  show ?thesis
    by (intro conjI p t d)
qed

text \<open>
  Claim C5, amended. The status of the reply is never looked at: replacing it by any
  other status changes nothing in what the call does. A reply of any status counts as a
  success when its body parses as JSON to a value other than \<^verbatim>\<open>null\<close>: the \<^verbatim>\<open>response\<close>
  property is read, and when its conversion to text does not throw, the call completes
  and the output element shows that text, written as the \<^verbatim>\<open>innerText\<close> setter writes it.
\<close>

theorem status_ignored:
  "sendMessage (with_status st ev) doc = sendMessage ev doc
   \<and> (input_text doc = Some m \<longrightarrow> getElementById doc (ascii ''response'') = Some p \<longrightarrow>
       fetch ev (chat_request (number_text ev) m) = Fulfils res \<longrightarrow>
       body_text res = Some t \<longrightarrow> JSON_parse t = Some data \<longrightarrow> data \<noteq> JNull \<longrightarrow>
       (\<exists>v. get_response data = Inr v
          \<and> (\<forall>s. DOMString (number_text ev) v = Inr s \<longrightarrow>
                completion (sendMessage (with_status st ev) doc) = Inr ()
              \<and> output_children (final_doc (sendMessage (with_status st ev) doc))
                  = Some (rendered_text_fragment s)
              \<and> displayed (final_doc (sendMessage (with_status st ev) doc))
                  = Some (without_line_breaks s)
              \<and> ((\<forall>c \<in> set s. \<not> is_line_break c) \<longrightarrow>
                    displayed (final_doc (sendMessage (with_status st ev) doc)) = Some s))))"
proof (intro conjI impI)
  show "sendMessage (with_status st ev) doc = sendMessage ev doc"
    by (rule sendMessage_with_status)
next
  assume a: "input_text doc = Some m" "getElementById doc (ascii ''response'') = Some p"
    "fetch ev (chat_request (number_text ev) m) = Fulfils res"
    "body_text res = Some t" "JSON_parse t = Some data" "data \<noteq> JNull"
  obtain v where v: "get_response data = Inr v"
    using get_response_parsed [OF a(5,6)] by blast
  have "completion (sendMessage (with_status st ev) doc) = Inr ()
      \<and> output_children (final_doc (sendMessage (with_status st ev) doc))
          = Some (rendered_text_fragment s)
      \<and> displayed (final_doc (sendMessage (with_status st ev) doc)) = Some (without_line_breaks s)
      \<and> ((\<forall>c \<in> set s. \<not> is_line_break c) \<longrightarrow>
            displayed (final_doc (sendMessage (with_status st ev) doc)) = Some s)"
    if "DOMString (number_text ev) v = Inr s" for s
  proof -
    have "reply_text ev m = Inr s"
      using a(3,4,5) v that by (rule reply_text_success)
    then have s: "shown_text ev m = s"
      by (rule shown_text_Inr)
    show ?thesis
      unfolding sendMessage_with_status
      using displayed_replace [OF a(2), of s] output_children_replace [OF a(2)]
      by (simp add: sendMessage_present [OF a(1,2)] s without_line_breaks_id)
  qed
  with v show "\<exists>v. get_response data = Inr v
          \<and> (\<forall>s. DOMString (number_text ev) v = Inr s \<longrightarrow>
                completion (sendMessage (with_status st ev) doc) = Inr ()
              \<and> output_children (final_doc (sendMessage (with_status st ev) doc))
                  = Some (rendered_text_fragment s)
              \<and> displayed (final_doc (sendMessage (with_status st ev) doc))
                  = Some (without_line_breaks s)
              \<and> ((\<forall>c \<in> set s. \<not> is_line_break c) \<longrightarrow>
                    displayed (final_doc (sendMessage (with_status st ev) doc)) = Some s))"
    by blast
qed

text \<open>An instance: the reply \<^verbatim>\<open>{"response": "hello"}\<close> with its status replaced by 404.\<close>

theorem status_ignored_witness:
  \<open>sendMessage (with_status 404 (server (reply 200 (ascii ''{"response": "hello"}'')))) (chat_page (ascii ''hi'') [])
     = sendMessage (server (reply 200 (ascii ''{"response": "hello"}''))) (chat_page (ascii ''hi'') [])
   \<and> completion (sendMessage (with_status 404 (server (reply 200 (ascii ''{"response": "hello"}''))))
        (chat_page (ascii ''hi'') [])) = Inr ()
   \<and> displayed (final_doc (sendMessage (with_status 404 (server (reply 200 (ascii ''{"response": "hello"}''))))
        (chat_page (ascii ''hi'') []))) = Some (ascii ''hello'')\<close>
proof -
  let ?ev = \<open>server (reply 200 (ascii ''{"response": "hello"}''))\<close>
  let ?doc = "chat_page (ascii ''hi'') []"
  let ?data = "JObject [(ascii ''response'', JString (ascii ''hello''))]"
  have f: \<open>fetch ?ev (chat_request (number_text ?ev) (ascii ''hi''))
      = Fulfils \<lparr>status = 200, body_text = Some (ascii ''{"response": "hello"}'')\<rparr>\<close>
    by (simp add: server_def reply_def)
  have b: \<open>body_text \<lparr>status = 200, body_text = Some (ascii ''{"response": "hello"}'')\<rparr>
      = Some (ascii ''{"response": "hello"}'')\<close>
    by simp
  have n: "?data \<noteq> JNull"
    by simp
  have g: "get_response ?data = Inr v \<Longrightarrow> v = JString (ascii ''hello'')" for v
    by (simp add: get_response_def)
  have d: "DOMString (number_text ?ev) (JString (ascii ''hello'')) = Inr (ascii ''hello'')"
    by (simp add: DOMString_def)
  have w: "without_line_breaks (ascii ''hello'') = ascii ''hello''"
    by (simp add: without_line_breaks_def ascii_def is_line_break_def)
  from status_ignored [of 404 ?ev ?doc "ascii ''hi''" "[1]"
      \<open>\<lparr>status = 200, body_text = Some (ascii ''{"response": "hello"}'')\<rparr>\<close>
      \<open>ascii ''{"response": "hello"}''\<close> ?data]
  have 1: "sendMessage (with_status 404 ?ev) ?doc = sendMessage ?ev ?doc"
    and 2: "\<exists>v. get_response ?data = Inr v
          \<and> (\<forall>s. DOMString (number_text ?ev) v = Inr s \<longrightarrow>
                completion (sendMessage (with_status 404 ?ev) ?doc) = Inr ()
              \<and> output_children (final_doc (sendMessage (with_status 404 ?ev) ?doc))
                  = Some (rendered_text_fragment s)
              \<and> displayed (final_doc (sendMessage (with_status 404 ?ev) ?doc))
                  = Some (without_line_breaks s)
              \<and> ((\<forall>c \<in> set s. \<not> is_line_break c) \<longrightarrow>
                    displayed (final_doc (sendMessage (with_status 404 ?ev) ?doc)) = Some s))"
    using chat_page_input chat_page_output f b parse_hello n by blast+
  from 2 g d have "completion (sendMessage (with_status 404 ?ev) ?doc) = Inr ()
      \<and> displayed (final_doc (sendMessage (with_status 404 ?ev) ?doc))
          = Some (without_line_breaks (ascii ''hello''))"
    by blast
  with 1 w show ?thesis by simp
qed

section \<open>What a call changes\<close>




text \<open>
  Claim C8. When the input field holds the same text at the second call as at the first,
  a second call, on the document the first one left and against the same server
  behaviour, ends exactly as the first: the same completion, the same request, the same
  document and so the same displayed text. Nothing accumulates from one call to the
  next.
\<close>

theorem second_call_same_result:
  assumes "input_text doc = Some m"
    and "input_text (final_doc (sendMessage ev doc)) = Some m"
  shows "sendMessage ev (final_doc (sendMessage ev doc)) = sendMessage ev doc
       \<and> displayed (final_doc (sendMessage ev (final_doc (sendMessage ev doc))))
           = displayed (final_doc (sendMessage ev doc))"
proof -
  have "sendMessage ev (final_doc (sendMessage ev doc)) = sendMessage ev doc"
  proof (cases "getElementById doc (ascii ''response'')")
    case None
    with assms(1) show ?thesis by (simp add: sendMessage_no_output)
  next
    case (Some p)
    let ?new = "rendered_text_fragment (shown_text ev m)"
    let ?doc' = "replace_children doc p ?new"
    have 1: "sendMessage ev doc =
        \<lparr>completion = Inr (), final_doc = ?doc', requests = [chat_request (number_text ev) m]\<rparr>"
      using assms(1) Some by (rule sendMessage_present)
    from assms(2) have i: "input_text ?doc' = Some m"
      by (simp add: 1)
    have r: "getElementById ?doc' (ascii ''response'') = Some p"
      using Some by (simp add: getElementById_def find_nodes_replace_same)
    have "sendMessage ev ?doc' =
        \<lparr>completion = Inr (), final_doc = replace_children ?doc' p ?new,
         requests = [chat_request (number_text ev) m]\<rparr>"
      using i r by (rule sendMessage_present)
    then show ?thesis
      by (simp add: 1 replace_children_twice)
  qed
  then show ?thesis by simp
qed

text \<open>An instance: two calls on a page with the input field beside the output element.\<close>

theorem second_call_same_result_witness:
  \<open>input_text (chat_page (ascii ''hi'') (ascii ''old'')) = Some (ascii ''hi'')
   \<and> input_text (final_doc (sendMessage (server (reply 200 (ascii ''{"response": "hello"}'')))
        (chat_page (ascii ''hi'') (ascii ''old'')))) = Some (ascii ''hi'')
   \<and> sendMessage (server (reply 200 (ascii ''{"response": "hello"}'')))
        (final_doc (sendMessage (server (reply 200 (ascii ''{"response": "hello"}'')))
          (chat_page (ascii ''hi'') (ascii ''old''))))
       = sendMessage (server (reply 200 (ascii ''{"response": "hello"}''))) (chat_page (ascii ''hi'') (ascii ''old''))\<close>
proof -
  let ?ev = \<open>server (reply 200 (ascii ''{"response": "hello"}''))\<close>
  let ?doc = "chat_page (ascii ''hi'') (ascii ''old'')"
  have a: "input_text ?doc = Some (ascii ''hi'')"
    by (rule chat_page_input)
  have b: "input_text (final_doc (sendMessage ?ev ?doc)) = Some (ascii ''hi'')"
    by code_simp
  from second_call_same_result [OF a b] a b show ?thesis
    by blast
qed

end
